theory Spec2Isabelle
  imports Main "HOL-Library.AList"
begin

section \<open>Data model\<close>

text \<open>
  A plain JavaScript object is an association list of its own properties in the order of
  \<^verbatim>\<open>Object.entries\<close>: the keys of a well-formed object are distinct. Reading
  \<^verbatim>\<open>obj[k]\<close> is \<^const>\<open>map_of\<close> (\<open>None\<close> is \<^verbatim>\<open>undefined\<close>), the assignment
  \<^verbatim>\<open>obj[k] = v\<close> is \<^const>\<open>AList.update\<close>: it overwrites in place or appends a new key.
  Reading a key that is not an own property goes on to \<^verbatim>\<open>Object.prototype\<close>, see
  \<open>add_count\<close> below. Counts and levels are integers.
\<close>

type_synonym ('k, 'v) obj = "('k \<times> 'v) list"

subsection \<open>Numbers and values\<close>

text \<open>
  A count is an integer held in a double. A sum of two counts is the nearest integer a
  double represents: 53 significant bits, a tie going to the even significand (sums stay
  below \<open>2 ^ 1024\<close>). \<open>bitlen\<close> is the number of binary digits.
\<close>

fun bitlen :: "nat \<Rightarrow> nat" where
  "bitlen n = (if n = 0 then 0 else Suc (bitlen (n div 2)))"

declare bitlen.simps [simp del]

definition round_double :: "int \<Rightarrow> int" where
  "round_double x =
     (let m = nat \<bar>x\<bar>;
          u = 2 ^ (bitlen m - 53);
          qt = m div u;
          r = m mod u
      in sgn x * int (u * (if u < 2 * r \<or> (2 * r = u \<and> odd qt) then qt + 1 else qt)))"

definition js_plus :: "int \<Rightarrow> int \<Rightarrow> int" where
  "js_plus a b = round_double (a + b)"

text \<open>
  The value of a property of the merged calendar: a number, or a string once
  \<^verbatim>\<open>+=\<close> has met a value that is not a number.
\<close>

datatype jsval = Num int | Str string

subsection \<open>Dates and time zones\<close>

text \<open>
  A \<^verbatim>\<open>Date\<close> is its time value, the milliseconds since the epoch (UTC).
\<close>

type_synonym date = int

definition msPerDay :: int where
  "msPerDay = 1000 * 60 * 60 * 24"

text \<open>
  The time zone of the process: the offset from UTC in milliseconds, as a function of a
  UTC time value (\<open>fst\<close>) and as a function of a local time value (\<open>snd\<close>, where a
  local time that a transition skips or repeats is read with one of the two offsets).
  In every zone the same local time on the next calendar day is a later instant.
\<close>

typedef zone =
  "{z :: (int \<Rightarrow> int) \<times> (int \<Rightarrow> int).
      \<forall>t. snd z (t + fst z t + msPerDay) < fst z t + msPerDay}"
  by (rule exI [of _ "(\<lambda>t. 0, \<lambda>t. 0)"]) (simp add: msPerDay_def)

setup_lifting type_definition_zone

lift_definition utc_offset :: "zone \<Rightarrow> int \<Rightarrow> int" is fst .

lift_definition local_offset :: "zone \<Rightarrow> int \<Rightarrow> int" is snd .

text \<open>A zone with the constant offset \<open>c\<close>; \<open>fixed_zone 0\<close> is UTC.\<close>

lift_definition fixed_zone :: "int \<Rightarrow> zone" is "\<lambda>c. (\<lambda>t. c, \<lambda>t. c)"
  by (simp add: msPerDay_def)


text \<open>
  \<^verbatim>\<open>d.setDate(d.getDate() + n)\<close>: the local time of \<open>d\<close>, moved by \<open>n\<close> calendar days at
  the same local time of day, read back as a UTC time value.
\<close>

definition setDate :: "zone \<Rightarrow> date \<Rightarrow> int \<Rightarrow> date" where
  "setDate z d n =
     (let t = d + utc_offset z d;
          newDate = t + n * msPerDay
      in newDate - local_offset z newDate)"

text \<open>
  \<^verbatim>\<open>const iso = (d) => d.toISOString().slice(0, 10)\<close>: the UTC calendar day of \<open>d\<close>.
  A calendar-date key \<^verbatim>\<open>YYYY-MM-DD\<close> is represented by the number of the UTC day it names
  (days since 1970-01-01), hence the name \<open>iso_day\<close>; \<open>iso_text\<close> below is the text of
  that key, which is one-to-one on the days of the years 0000 to 9999. A key of a fetched
  mapping that is not the text of a date equals no key of the date range.
\<close>

type_synonym isodate = int

definition iso_day :: "date \<Rightarrow> isodate" where
  "iso_day d = d div msPerDay"

text \<open>\<^verbatim>\<open>getUTCDay\<close>: 0 is Sunday; 1970-01-01 was a Thursday.\<close>

definition getUTCDay :: "date \<Rightarrow> int" where
  "getUTCDay d = (iso_day d + 4) mod 7"

text \<open>
  \<^verbatim>\<open>const today = new Date(); const fromDate = new Date(today);
  fromDate.setDate(today.getDate() - 364);\<close>
  The module constant \<open>today\<close> and the time zone \<open>z\<close> of the process are parameters of
  everything that reads them.
\<close>

definition fromDate :: "zone \<Rightarrow> date \<Rightarrow> date" where
  "fromDate z today = setDate z today (- 364)"

subsection \<open>Numbers and dates as text\<close>

definition digit :: "nat \<Rightarrow> char" where
  "digit n = ''0123456789'' ! n"

fun show_nat :: "nat \<Rightarrow> string" where
  "show_nat n = (if n < 10 then [digit n] else show_nat (n div 10) @ [digit (n mod 10)])"

declare show_nat.simps [simp del]

definition show_int :: "int \<Rightarrow> string" where
  "show_int i = (if i < 0 then ''-'' @ show_nat (nat (- i)) else show_nat (nat i))"

text \<open>\<^verbatim>\<open>hay.includes(needle)\<close>\<close>

fun contains :: "string \<Rightarrow> string \<Rightarrow> bool" where
  "contains needle [] = (needle = [])"
| "contains needle (c # cs) = (take (length needle) (c # cs) = needle \<or> contains needle cs)"

definition pad :: "nat \<Rightarrow> string \<Rightarrow> string" where
  "pad w s = replicate (w - length s) CHR ''0'' @ s"

text \<open>Year, month and day of month of a UTC day number in the proleptic Gregorian calendar.\<close>

definition civil :: "isodate \<Rightarrow> int \<times> int \<times> int" where
  "civil z =
     (let z' = z + 719468;
          era = z' div 146097;
          doe = z' mod 146097;
          yoe = (doe - doe div 1460 + doe div 36524 - doe div 146096) div 365;
          doy = doe - (365 * yoe + yoe div 4 - yoe div 100);
          mp = (5 * doy + 2) div 153;
          d = doy - (153 * mp + 2) div 5 + 1;
          m = (if mp < 10 then mp + 3 else mp - 9);
          y = yoe + era * 400 + (if m \<le> 2 then 1 else 0)
      in (y, m, d))"

text \<open>
  The first ten characters of \<^verbatim>\<open>toISOString()\<close>: four year digits for the years 0 to 9999,
  a sign and six digits otherwise.
\<close>

definition iso_text :: "isodate \<Rightarrow> string" where
  "iso_text z =
     (case civil z of (y, m, d) \<Rightarrow>
        take 10
          ((if 0 \<le> y \<and> y \<le> 9999 then pad 4 (show_nat (nat y))
            else (if y < 0 then ''-'' else ''+'') @ pad 6 (show_nat (nat \<bar>y\<bar>)))
           @ ''-'' @ pad 2 (show_nat (nat m)) @ ''-'' @ pad 2 (show_nat (nat d))))"

section \<open>Remote calendar fetchers\<close>

text \<open>
  What a fetcher sees of the network is the HTTP response: \<^verbatim>\<open>res.ok\<close>, \<^verbatim>\<open>res.status\<close>,
  the body as text (\<^verbatim>\<open>await res.text()\<close>) and the body as parsed JSON
  (\<^verbatim>\<open>await res.json()\<close>, \<open>None\<close> when the body is not JSON of the expected shape and the
  call or the traversal throws).
\<close>

record 'j response =
  ok :: bool
  status :: nat
  body_text :: string
  body_json :: "'j option"

text \<open>\<open>Error msg\<close> is \<^verbatim>\<open>new Error(msg)\<close>; \<open>Other_failure\<close> is any other exception.\<close>

datatype error = Error string | Other_failure

text \<open>
  The GitHub payload: \<^verbatim>\<open>json?.data?.user?.contributionsCollection?.contributionCalendar?.weeks\<close>
  is \<open>None\<close> when the chain ends in \<^verbatim>\<open>undefined\<close>; a week is its \<^verbatim>\<open>contributionDays\<close>, a
  day is \<^verbatim>\<open>(date, contributionCount || 0)\<close>.
\<close>

type_synonym 'k gh_json = "('k \<times> int) list list option"

definition fetchGitHubCalendar :: "'k gh_json response \<Rightarrow> error + ('k, int) obj" where
  "fetchGitHubCalendar res =
     (if \<not> ok res then
        let text = body_text res
        in Inl (Error (''GitHub GraphQL error: '' @ show_nat (status res) @ '' '' @ text))
      else
        (case body_json res of
           None \<Rightarrow> Inl Other_failure
         | Some json \<Rightarrow>
             let weeks = (case json of None \<Rightarrow> [] | Some ws \<Rightarrow> ws)
             in Inr (fold (\<lambda>w. fold (\<lambda>(date, cnt) out.
                       AList.update date
                         (js_plus (case map_of out date of None \<Rightarrow> 0 | Some c \<Rightarrow> c) cnt)
                         out) w)
                     weeks [])))"

text \<open>The GitLab payload is the mapping itself; \<^verbatim>\<open>json || {}\<close> turns \<^verbatim>\<open>null\<close> into \<^verbatim>\<open>{}\<close>.\<close>

type_synonym 'k gl_json = "('k, int) obj option"

definition fetchGitLabCalendar :: "'k gl_json response \<Rightarrow> error + ('k, int) obj" where
  "fetchGitLabCalendar res =
     (if \<not> ok res then
        let text = body_text res
        in Inl (Error (''GitLab calendar error: '' @ show_nat (status res) @ '' '' @ text))
      else
        (case body_json res of
           None \<Rightarrow> Inl Other_failure
         | Some json \<Rightarrow> Inr (case json of None \<Rightarrow> [] | Some m \<Rightarrow> m)))"

section \<open>Date range builder\<close>

lemma setDate_next_day: "d < setDate z d 1"
proof -
  have "local_offset z (d + utc_offset z d + msPerDay) < utc_offset z d + msPerDay"
    by transfer simp
  then show ?thesis
    by (simp add: setDate_def Let_def)
qed

function dateRangeMap_loop ::
  "zone \<Rightarrow> date \<Rightarrow> date \<Rightarrow> (isodate, int) obj \<Rightarrow> (isodate, int) obj" where
  "dateRangeMap_loop z d to m =
     (if d \<le> to then dateRangeMap_loop z (setDate z d 1) to (AList.update (iso_day d) 0 m)
      else m)"
  by pat_completeness auto
termination
proof (relation "measure (\<lambda>(z, d, to, m). nat (to - d + 1))")
  show "wf (measure (\<lambda>(z, d, to, m). nat (to - d + 1)))"
    by simp
next
  fix z :: zone and d to :: date and m :: "(isodate, int) obj"
  assume "d \<le> to"
  with setDate_next_day [of d z]
  show "((z, setDate z d 1, to, AList.update (iso_day d) 0 m), (z, d, to, m))
      \<in> measure (\<lambda>(z, d, to, m). nat (to - d + 1))"
    by simp
qed

declare dateRangeMap_loop.simps [simp del]

definition dateRangeMap :: "zone \<Rightarrow> date \<Rightarrow> date \<Rightarrow> (isodate, int) obj" where
  "dateRangeMap z from to = dateRangeMap_loop z from to []"

section \<open>Calendar merger\<close>

text \<open>
  \<^verbatim>\<open>v + cnt\<close> for a count \<open>cnt\<close>: the sum of two numbers, the concatenation with a
  string (counts below \<open>10 ^ 21\<close> print as their decimal digits).
\<close>

fun js_add :: "jsval \<Rightarrow> int \<Rightarrow> jsval" where
  "js_add (Num a) n = Num (js_plus a n)"
| "js_add (Str s) n = Str (s @ show_int n)"

text \<open>
  \<^verbatim>\<open>if (base[date] !== undefined) base[date] += cnt;\<close>
  The read \<^verbatim>\<open>base[date]\<close> finds an own property or else a property that every object
  inherits: \<open>proto date\<close> is the text of the inherited value named \<open>date\<close>, \<open>None\<close> where
  there is none. The assignment then makes \<open>date\<close> an own property.
\<close>

definition add_count ::
  "('k \<Rightarrow> string option) \<Rightarrow> 'k \<times> int \<Rightarrow> ('k, jsval) obj \<Rightarrow> ('k, jsval) obj" where
  "add_count proto e base =
     (case e of (date, cnt) \<Rightarrow>
        (case (case map_of base date of
                 Some v \<Rightarrow> Some v
               | None \<Rightarrow> map_option Str (proto date)) of
           None \<Rightarrow> base
         | Some v \<Rightarrow> AList.update date (js_add v cnt) base))"

text \<open>The base holds numbers: the zeroes of \<open>dateRangeMap\<close>.\<close>

definition mergeCalendars ::
  "('k \<Rightarrow> string option) \<Rightarrow> ('k, int) obj \<Rightarrow> ('k, int) obj \<Rightarrow> ('k, int) obj
     \<Rightarrow> ('k, jsval) obj" where
  "mergeCalendars proto base gh gl =
     fold (add_count proto) gl (fold (add_count proto) gh (map (\<lambda>(k, n). (k, Num n)) base))"

text \<open>
  The properties of \<^verbatim>\<open>Object.prototype\<close> as Node.js has them, each a function with the
  text below. (\<^verbatim>\<open>__proto__\<close> passes the guard too, but assigning a string to it
  changes nothing, as for a name that is not inherited.)
\<close>

definition object_prototype :: "string \<Rightarrow> string option" where
  "object_prototype name =
     (if name = ''constructor'' then Some ''function Object() { [native code] }''
      else if name \<in> set [''hasOwnProperty'', ''isPrototypeOf'', ''propertyIsEnumerable'',
          ''toLocaleString'', ''toString'', ''valueOf'', ''__defineGetter__'',
          ''__defineSetter__'', ''__lookupGetter__'', ''__lookupSetter__'']
      then Some (''function '' @ name @ ''() { [native code] }'')
      else None)"

text \<open>
  A calendar date names no inherited property; the entries of a merged calendar of
  dates are numbers, and \<open>numbers\<close> reads them as such.
\<close>

definition no_inherited :: "isodate \<Rightarrow> string option" where
  "no_inherited k = None"

definition numbers :: "('k, jsval) obj \<Rightarrow> ('k, int) obj" where
  "numbers obj = concat (map (\<lambda>(k, v). case v of Num n \<Rightarrow> [(k, n)] | Str s \<Rightarrow> []) obj)"

text \<open>The count a fetched mapping gives a date, 0 when the date is absent.\<close>

definition count_of :: "('k, int) obj \<Rightarrow> 'k \<Rightarrow> int" where
  "count_of m k = (case map_of m k of None \<Rightarrow> 0 | Some c \<Rightarrow> c)"

text \<open>The sum of every count a list of entries gives a date.\<close>

definition sum_for :: "('k, int) obj \<Rightarrow> 'k \<Rightarrow> int" where
  "sum_for xs k = sum_list (map snd (filter (\<lambda>e. fst e = k) xs))"

section \<open>Level classifier\<close>

text \<open>
  \<^verbatim>\<open>const q = (p) => arr[Math.floor((arr.length - 1) * p)]\<close> at \<open>p = num / den\<close>
  for the three calls \<open>0.25\<close>, \<open>0.5\<close>, \<open>0.75\<close>, where the product is exact. On the empty
  array the index is \<open>-1\<close> and the result \<^verbatim>\<open>undefined\<close>.
\<close>

definition q :: "int list \<Rightarrow> nat \<Rightarrow> nat \<Rightarrow> int option" where
  "q arr num den =
     (if arr = [] then None else Some (arr ! (((length arr - 1) * num) div den)))"

text \<open>A comparison with \<^verbatim>\<open>undefined\<close> is false.\<close>

definition js_le :: "int \<Rightarrow> int option \<Rightarrow> bool" where
  "js_le v t = (case t of None \<Rightarrow> False | Some x \<Rightarrow> v \<le> x)"

definition js_gt :: "int \<Rightarrow> int option \<Rightarrow> bool" where
  "js_gt v t = (case t of None \<Rightarrow> False | Some x \<Rightarrow> v > x)"

definition level :: "int option \<Rightarrow> int option \<Rightarrow> int option \<Rightarrow> int \<Rightarrow> int" where
  "level q1 q2 q3 v =
     (let lvl = 0;
          lvl = (if v > 0 \<and> js_le v q1 then 1 else lvl);
          lvl = (if js_gt v q1 \<and> js_le v q2 then 2 else lvl);
          lvl = (if js_gt v q2 \<and> js_le v q3 then 3 else lvl);
          lvl = (if js_gt v q3 then 4 else lvl)
      in lvl)"

definition computeLevels :: "('k, int) obj \<Rightarrow> ('k, int) obj" where
  "computeLevels values =
     (let arr = sort (map snd values);
          q1 = q arr 1 4; q2 = q arr 1 2; q3 = q arr 3 4
      in fold (\<lambda>(k, v) levels. AList.update k (level q1 q2 q3 v) levels) values [])"

text \<open>
  The specification's cut point at \<open>p = num / den\<close>, for a non-empty map: the entry of the
  ascending sort of the counts at index \<open>floor ((n - 1) * p)\<close>.
\<close>

definition cut_point :: "('k, int) obj \<Rightarrow> nat \<Rightarrow> nat \<Rightarrow> int" where
  "cut_point values num den =
     sort (map snd values) ! (((length values - 1) * num) div den)"

section \<open>Grid renderer\<close>

definition palette :: "string list" where
  "palette = [''#ebedf0'', ''#c6e48b'', ''#7bc96f'', ''#239a3b'', ''#196127'']"

text \<open>\<^verbatim>\<open>palette[lvl]\<close>, \<^verbatim>\<open>undefined\<close> out of range.\<close>

definition palette_at :: "int \<Rightarrow> string option" where
  "palette_at lvl =
     (if 0 \<le> lvl \<and> lvl < int (length palette) then Some (palette ! nat lvl) else None)"

definition cell :: int where
  "cell = 10"

definition gap :: int where
  "gap = 2"

definition headerH :: int where
  "headerH = 26"

definition grid_start :: "zone \<Rightarrow> date \<Rightarrow> date" where
  "grid_start z today =
     (let start = fromDate z today; weekday = getUTCDay start in setDate z start (- weekday))"

definition grid_end :: "zone \<Rightarrow> date \<Rightarrow> date" where
  "grid_end z today =
     (let endShift = 6 - getUTCDay today in setDate z today endShift)"

text \<open>\<^verbatim>\<open>Math.ceil(a / b)\<close> for integers \<open>a\<close> and \<open>b > 0\<close>.\<close>

definition ceil_div :: "int \<Rightarrow> int \<Rightarrow> int" where
  "ceil_div a b = - ((- a) div b)"

definition weeks :: "zone \<Rightarrow> date \<Rightarrow> int" where
  "weeks z today = ceil_div (grid_end z today - grid_start z today) (msPerDay * 7) + 1"

definition width :: "zone \<Rightarrow> date \<Rightarrow> int" where
  "width z today = weeks z today * (cell + gap) + gap"

text \<open>
  The two nested loops: \<open>body w d cursor\<close> is what one iteration appends to
  \<^verbatim>\<open>rects\<close>; the cursor moves on by one day.
\<close>

definition rect_step ::
  "zone \<Rightarrow> (nat \<Rightarrow> nat \<Rightarrow> date \<Rightarrow> 'a) \<Rightarrow> nat \<Rightarrow> nat \<Rightarrow> 'a list \<times> date
     \<Rightarrow> 'a list \<times> date" where
  "rect_step z body w d st =
     (case st of (rects, cursor) \<Rightarrow> (rects @ [body w d cursor], setDate z cursor 1))"

definition grid_rects :: "zone \<Rightarrow> (nat \<Rightarrow> nat \<Rightarrow> date \<Rightarrow> 'a) \<Rightarrow> date \<Rightarrow> 'a list" where
  "grid_rects z body today =
     fst (fold (\<lambda>w. fold (\<lambda>d. rect_step z body w d) [0..<7]) [0..<nat (weeks z today)]
            ([], grid_start z today))"

text \<open>The value of \<^verbatim>\<open>cursor\<close> when iteration number \<open>i\<close> of the loops begins.\<close>

definition cursor_at :: "zone \<Rightarrow> date \<Rightarrow> nat \<Rightarrow> date" where
  "cursor_at z today i = ((\<lambda>d. setDate z d 1) ^^ i) (grid_start z today)"

text \<open>
  What one iteration computes for its rectangle; \<open>r_cnt\<close> is the count of the richer
  variant and 0 in the plain one, \<open>r_fill\<close> is \<^verbatim>\<open>palette[lvl]\<close>.
\<close>

record rect =
  r_key :: isodate
  r_lvl :: int
  r_cnt :: int
  r_x :: int
  r_y :: int
  r_fill :: "string option"

definition fill_text :: "string option \<Rightarrow> string" where
  "fill_text f = (case f of None \<Rightarrow> ''undefined'' | Some c \<Rightarrow> c)"

subsection \<open>scripts/build-contrib.js\<close>

definition make_rect :: "(isodate, int) obj \<Rightarrow> nat \<Rightarrow> nat \<Rightarrow> date \<Rightarrow> rect" where
  "make_rect levels w d cursor =
     (let key = iso_day cursor;
          lvl = (case map_of levels key of None \<Rightarrow> 0 | Some l \<Rightarrow> l);
          x = gap + int w * (cell + gap);
          y = gap + int d * (cell + gap);
          fill = palette_at lvl
      in \<lparr>r_key = key, r_lvl = lvl, r_cnt = 0, r_x = x, r_y = y, r_fill = fill\<rparr>)"

definition rect_text :: "rect \<Rightarrow> string" where
  \<open>rect_text r =
     ''<rect x="'' @ show_int (r_x r) @ ''" y="'' @ show_int (r_y r)
     @ ''" width="'' @ show_int cell @ ''" height="'' @ show_int cell
     @ ''" rx="2" ry="2" fill="'' @ fill_text (r_fill r) @ ''">\<newline>        <title>''
     @ iso_text (r_key r) @ '': '' @ show_int (r_lvl r) @ ''</title>\<newline>      </rect>''\<close>

definition cells :: "zone \<Rightarrow> date \<Rightarrow> (isodate, int) obj \<Rightarrow> rect list" where
  "cells z today levels = grid_rects z (make_rect levels) today"

definition renderSVG :: "zone \<Rightarrow> date \<Rightarrow> (isodate, int) obj \<Rightarrow> string" where
  \<open>renderSVG z today levels =
     (let width = width z today;
          height = 7 * (cell + gap) + gap;
          rects = concat (map rect_text (cells z today levels))
      in ''<?xml version="1.0" encoding="UTF-8"?>\<newline><svg width="'' @ show_int width
         @ ''" height="'' @ show_int height @ ''" viewBox="0 0 '' @ show_int width @ '' ''
         @ show_int height
         @ ''" xmlns="http://www.w3.org/2000/svg" role="img" aria-label="Combined contributions">\<newline>''
         @ ''  <title>Combined GitHub + GitLab Contributions (last 365 days)</title>\<newline>''
         @ ''  <rect width="100%" height="100%" fill="#fff"/>\<newline>  '' @ rects
         @ ''\<newline></svg>'')\<close>

subsection \<open>The richer variant: counts in the tooltips, totals in a header band\<close>

record totals =
  t_gh :: int
  t_gl :: int
  t_total :: int

definition make_rect_rich ::
  "(isodate, int) obj \<Rightarrow> (isodate, int) obj \<Rightarrow> nat \<Rightarrow> nat \<Rightarrow> date \<Rightarrow> rect" where
  "make_rect_rich levels counts w d cursor =
     (let key = iso_day cursor;
          lvl = (case map_of levels key of None \<Rightarrow> 0 | Some l \<Rightarrow> l);
          cnt = (case map_of counts key of None \<Rightarrow> 0 | Some c \<Rightarrow> c);
          x = gap + int w * (cell + gap);
          y = headerH + gap + int d * (cell + gap);
          fill = palette_at lvl
      in \<lparr>r_key = key, r_lvl = lvl, r_cnt = cnt, r_x = x, r_y = y, r_fill = fill\<rparr>)"

definition rect_text_rich :: "rect \<Rightarrow> string" where
  \<open>rect_text_rich r =
     ''<rect x="'' @ show_int (r_x r) @ ''" y="'' @ show_int (r_y r)
     @ ''" width="'' @ show_int cell @ ''" height="'' @ show_int cell
     @ ''" rx="2" ry="2" fill="'' @ fill_text (r_fill r) @ ''">\<newline>        <title>''
     @ iso_text (r_key r) @ '': '' @ show_int (r_cnt r) @ '' contribution''
     @ (if r_cnt r = 1 then '''' else ''s'') @ ''</title>\<newline>      </rect>''\<close>

definition cells_rich ::
  "zone \<Rightarrow> date \<Rightarrow> (isodate, int) obj \<Rightarrow> (isodate, int) obj \<Rightarrow> rect list" where
  "cells_rich z today levels counts = grid_rects z (make_rect_rich levels counts) today"

text \<open>The bullet and the arrow of the two labels, as the UTF-8 bytes of the written file.\<close>

definition bullet :: string where
  "bullet = [CHR 0xE2, CHR 0x80, CHR 0xA2]"

definition arrow :: string where
  "arrow = [CHR 0xE2, CHR 0x86, CHR 0x92]"

definition font_family :: string where
  "font_family =
     ''system-ui,-apple-system,Segoe UI,Roboto,Ubuntu,Cantarell,Noto Sans,sans-serif''"

definition renderSVG_rich ::
  "zone \<Rightarrow> date \<Rightarrow> (isodate, int) obj \<Rightarrow> (isodate, int) obj \<Rightarrow> totals \<Rightarrow> string" where
  \<open>renderSVG_rich z today levels counts totals =
     (let width = width z today;
          height = headerH + 7 * (cell + gap) + gap;
          rects = concat (map rect_text_rich (cells_rich z today levels counts));
          label = ''Total: '' @ show_int (t_total totals) @ '' (GH '' @ show_int (t_gh totals)
                  @ '' '' @ bullet @ '' GL '' @ show_int (t_gl totals) @ '')'';
          dateRange = iso_text (iso_day (fromDate z today)) @ '' '' @ arrow @ '' ''
                      @ iso_text (iso_day today)
      in ''<?xml version="1.0" encoding="UTF-8"?>\<newline><svg width="'' @ show_int width
         @ ''" height="'' @ show_int height @ ''" viewBox="0 0 '' @ show_int width @ '' ''
         @ show_int height
         @ ''" xmlns="http://www.w3.org/2000/svg" role="img" aria-label="Combined contributions">\<newline>''
         @ ''  <title>Combined GitHub + GitLab Contributions (last 365 days)</title>\<newline>''
         @ ''  <rect width="100%" height="100%" fill="#fff"/>\<newline>''
         @ ''  <text x="'' @ show_int gap @ ''" y="16" font-family="'' @ font_family
         @ ''" font-size="12" fill="#24292f">'' @ label @ ''</text>\<newline>''
         @ ''  <text x="'' @ show_int (width - gap)
         @ ''" y="16" text-anchor="end" font-family="'' @ font_family
         @ ''" font-size="11" fill="#57606a">'' @ dateRange @ ''</text>\<newline>  '' @ rects
         @ ''\<newline></svg>'')\<close>

section \<open>Pipeline driver\<close>

text \<open>
  \<^verbatim>\<open>Promise.all\<close> of the two fetches: both results when both fulfil, otherwise the
  rejection that comes first. Which of two rejections comes first is the network's
  choice, a parameter here.
\<close>

datatype settle_order = GitHub_first | GitLab_first

definition promise_all ::
  "settle_order \<Rightarrow> error + 'a \<Rightarrow> error + 'b \<Rightarrow> error + ('a \<times> 'b)" where
  "promise_all order a b =
     (case (a, b) of
        (Inr x, Inr y) \<Rightarrow> Inr (x, y)
      | (Inl e, Inr y) \<Rightarrow> Inl e
      | (Inr x, Inl e) \<Rightarrow> Inl e
      | (Inl e1, Inl e2) \<Rightarrow> (case order of GitHub_first \<Rightarrow> Inl e1 | GitLab_first \<Rightarrow> Inl e2))"

text \<open>
  What the driver can change: the contents of \<^verbatim>\<open>public/contrib.svg\<close> (\<open>None\<close> while
  the file does not exist), the two console streams and the exit status
  (\<open>None\<close> until \<^verbatim>\<open>process.exit\<close>; the process then ends with status 0).
  \<^verbatim>\<open>mkdirSync\<close> and \<^verbatim>\<open>writeFileSync\<close> succeed. The driver is the body of the
  final \<^verbatim>\<open>async\<close> function, which runs once the user names and the token are present;
  \<open>resGH\<close> and \<open>resGL\<close> are the answers of the two sources, their keys calendar dates.
\<close>

record world =
  out_file :: "string option"
  console_log :: "string list"
  console_error :: "error list"
  exit_code :: "nat option"

definition main ::
  "zone \<Rightarrow> date \<Rightarrow> string \<Rightarrow> settle_order \<Rightarrow> isodate gh_json response
     \<Rightarrow> isodate gl_json response \<Rightarrow> world \<Rightarrow> world" where
  "main z today outPath order resGH resGL wld =
     (let base = dateRangeMap z (fromDate z today) today
      in case promise_all order (fetchGitHubCalendar resGH) (fetchGitLabCalendar resGL) of
           Inr (gh, gl) \<Rightarrow>
             let merged = mergeCalendars no_inherited base gh gl;
                 levels = computeLevels (numbers merged);
                 svg = renderSVG z today levels
             in wld\<lparr>out_file := Some svg,
                    console_log := console_log wld @ [''Wrote '' @ outPath]\<rparr>
         | Inl e \<Rightarrow>
             wld\<lparr>console_error := console_error wld @ [e], exit_code := Some 1\<rparr>)"

definition sum_values :: "('k, int) obj \<Rightarrow> int" where
  "sum_values obj = fold (\<lambda>b a. js_plus a b) (map snd obj) 0"

definition main_rich ::
  "zone \<Rightarrow> date \<Rightarrow> string \<Rightarrow> settle_order \<Rightarrow> isodate gh_json response
     \<Rightarrow> isodate gl_json response \<Rightarrow> world \<Rightarrow> world" where
  "main_rich z today outPath order resGH resGL wld =
     (let base = dateRangeMap z (fromDate z today) today
      in case promise_all order (fetchGitHubCalendar resGH) (fetchGitLabCalendar resGL) of
           Inr (ghMap, glMap) \<Rightarrow>
             let merged = mergeCalendars no_inherited base ghMap glMap;
                 levels = computeLevels (numbers merged);
                 totals = \<lparr>t_gh = sum_values ghMap, t_gl = sum_values glMap,
                           t_total = sum_values (numbers merged)\<rparr>;
                 svg = renderSVG_rich z today levels (numbers merged) totals
             in wld\<lparr>out_file := Some svg,
                    console_log := console_log wld @ [''Wrote '' @ outPath]\<rparr>
         | Inl e \<Rightarrow>
             wld\<lparr>console_error := console_error wld @ [e], exit_code := Some 1\<rparr>)"

section \<open>Properties of the numbers\<close>

lemma bitlen_le: "n < 2 ^ k \<Longrightarrow> bitlen n \<le> k"
proof (induction k arbitrary: n)
  case 0
  then show ?case by (simp add: bitlen.simps)
next
  case (Suc k)
  show ?case
  proof (cases "n = 0")
    case True
    then show ?thesis by (simp add: bitlen.simps)
  next
    case False
    from Suc.prems have "n div 2 < 2 ^ k" by simp
    then have "bitlen (n div 2) \<le> k" by (rule Suc.IH)
    with False show ?thesis by (subst bitlen.simps) simp
  qed
qed

lemma round_double_exact:
  assumes "\<bar>x\<bar> < 9007199254740992"
  shows "round_double x = x"
proof -
  have "nat \<bar>x\<bar> < 2 ^ 53" using assms by simp
  then have "bitlen (nat \<bar>x\<bar>) \<le> 53" by (rule bitlen_le)
  then show ?thesis
    by (simp add: round_double_def Let_def mult_sgn_abs)
qed

lemma js_plus_exact: "\<bar>a + b\<bar> < 9007199254740992 \<Longrightarrow> js_plus a b = a + b"
  by (simp add: js_plus_def round_double_exact)

section \<open>Properties of the level classifier\<close>

lemma update_fresh: "k \<notin> fst ` set al \<Longrightarrow> AList.update k v al = al @ [(k, v)]"
  by (induction al) auto

lemma fold_update_fresh:
  "distinct (map fst xs) \<Longrightarrow> fst ` set acc \<inter> fst ` set xs = {} \<Longrightarrow>
   fold (\<lambda>(k, v). AList.update k (f v)) xs acc = acc @ map (\<lambda>(k, v). (k, f v)) xs"
proof (induction xs arbitrary: acc)
  case Nil
  then show ?case by simp
next
  case (Cons x xs)
  obtain k v where x: "x = (k, v)" by (cases x)
  from Cons.prems have fresh: "k \<notin> fst ` set acc" by (auto simp: x)
  from Cons.prems have d: "distinct (map fst xs)" and nk: "k \<notin> fst ` set xs"
    by (auto simp: x)
  from Cons.prems nk have disj: "fst ` set (acc @ [(k, f v)]) \<inter> fst ` set xs = {}"
    by (auto simp: x)
  show ?case
    using Cons.IH [OF d disj] by (simp add: x update_fresh [OF fresh])
qed

lemma computeLevels_map:
  assumes "distinct (map fst values)"
  shows "computeLevels values =
    map (\<lambda>(k, v). (k, level (q (sort (map snd values)) 1 4) (q (sort (map snd values)) 1 2)
                            (q (sort (map snd values)) 3 4) v)) values"
  unfolding computeLevels_def Let_def
  using fold_update_fresh [OF assms, of "[]"] by simp

lemma map_of_map_distinct:
  "distinct (map fst xs) \<Longrightarrow> (k, v) \<in> set xs \<Longrightarrow>
   map_of (map (\<lambda>(k, v). (k, f v)) xs) k = Some (f v)"
  by (induction xs) (auto simp: rev_image_eqI)

lemma sort_eq_Nil: "sort xs = [] \<longleftrightarrow> xs = []"
  by (metis length_0_conv length_sort)

lemma q_cut: "values \<noteq> [] \<Longrightarrow> q (sort (map snd values)) num den = Some (cut_point values num den)"
  by (simp add: q_def cut_point_def sort_eq_Nil)

lemma quantile_index:
  assumes "num \<le> den" "0 < den"
  shows "((n - 1) * num) div den \<le> n - (1::nat)"
proof -
  have "((n - 1) * num) div den \<le> ((n - 1) * den) div den"
    using assms(1) by (intro div_le_mono) simp
  with assms(2) show ?thesis by simp
qed

lemma cut_mem:
  assumes "values \<noteq> []" "num \<le> den" "0 < den"
  shows "cut_point values num den \<in> snd ` set values"
proof -
  let ?n = "length values"
  have "((?n - 1) * num) div den \<le> ?n - 1"
    using assms(2,3) by (rule quantile_index)
  with assms(1) have "((?n - 1) * num) div den < length (sort (map snd values))"
    by (cases "values") auto
  then have "cut_point values num den \<in> set (sort (map snd values))"
    unfolding cut_point_def by (rule nth_mem)
  then show ?thesis by simp
qed

lemma cut_mono:
  assumes "values \<noteq> []" "((length values - 1) * a) div b \<le> ((length values - 1) * c) div d"
   "c \<le> d" "0 < d"
  shows "cut_point values a b \<le> cut_point values c d"
proof -
  let ?n = "length values"
  have "((?n - 1) * c) div d \<le> ?n - 1"
    using assms(3,4) by (rule quantile_index)
  with assms(1) have "((?n - 1) * c) div d < length (sort (map snd values))"
    by (cases "values") auto
  then show ?thesis
    unfolding cut_point_def using assms(2) by (intro sorted_nth_mono) auto
qed

lemma cut_order:
  assumes "values \<noteq> []"
  shows "cut_point values 1 4 \<le> cut_point values 1 2" "cut_point values 1 2 \<le> cut_point values 3 4"
  by (rule cut_mono [OF assms]; simp; linarith?)+

lemma level_bands:
  assumes "0 \<le> a" "a \<le> b" "b \<le> c" "0 \<le> v"
  shows "level (Some a) (Some b) (Some c) v =
    (if v = 0 then 0 else if v \<le> a then 1 else if v \<le> b then 2 else if v \<le> c then 3 else 4)"
  using assms by (auto simp: level_def js_le_def js_gt_def Let_def)

lemma level_range: "level q1 q2 q3 v \<in> {0, 1, 2, 3, 4}"
  by (simp add: level_def Let_def)

lemma computeLevels_lookup:
  assumes d: "distinct (map fst values)" and nn: "\<forall>v \<in> snd ` set values. 0 \<le> v"
    and kv: "(k, v) \<in> set values"
  shows "map_of (computeLevels values) k =
    Some (if v = 0 then 0 else if v \<le> cut_point values 1 4 then 1 else if v \<le> cut_point values 1 2 then 2
          else if v \<le> cut_point values 3 4 then 3 else 4)"
proof -
  from kv have ne: "values \<noteq> []" by auto
  have "cut_point values 1 4 \<in> snd ` set values" using ne by (intro cut_mem) simp_all
  with nn have q1: "0 \<le> cut_point values 1 4" by blast
  from kv nn have v: "0 \<le> v" by force
  have "map_of (computeLevels values) k =
      Some (level (Some (cut_point values 1 4)) (Some (cut_point values 1 2)) (Some (cut_point values 3 4)) v)"
    by (simp only: computeLevels_map [OF d] q_cut [OF ne] map_of_map_distinct [OF d kv])
  then show ?thesis
    by (simp only: level_bands [OF q1 cut_order [OF ne] v])
qed

text \<open>
  C1. For a map of non-negative counts, the three cut points are the entries of the
  ascending sort at the indices \<open>(n - 1) div 4\<close>, \<open>(n - 1) div 2\<close> and
  \<open>3 * (n - 1) div 4\<close>, and a date with count \<open>v\<close> gets level 0 if \<open>v = 0\<close>, else 1 if
  \<open>v \<le> q1\<close>, 2 if \<open>q1 < v \<le> q2\<close>, 3 if \<open>q2 < v \<le> q3\<close>, 4 if \<open>v > q3\<close>: a count equal
  to a cut point goes to the lower level.
\<close>

theorem computeLevels_quartile_bands:
  assumes "distinct (map fst values)" and "\<forall>v \<in> snd ` set values. 0 \<le> v"
    and "(k, v) \<in> set values"
  shows "cut_point values 1 4 = sort (map snd values) ! ((length values - 1) div 4)
    \<and> cut_point values 1 2 = sort (map snd values) ! ((length values - 1) div 2)
    \<and> cut_point values 3 4 = sort (map snd values) ! (((length values - 1) * 3) div 4)
    \<and> (\<exists>lvl. map_of (computeLevels values) k = Some lvl
          \<and> (v = 0 \<longrightarrow> lvl = 0)
          \<and> (v \<noteq> 0 \<and> v \<le> cut_point values 1 4 \<longrightarrow> lvl = 1)
          \<and> (cut_point values 1 4 < v \<and> v \<le> cut_point values 1 2 \<longrightarrow> lvl = 2)
          \<and> (cut_point values 1 2 < v \<and> v \<le> cut_point values 3 4 \<longrightarrow> lvl = 3)
          \<and> (cut_point values 3 4 < v \<longrightarrow> lvl = 4))"
proof -
  from assms(3) have ne: "values \<noteq> []" by auto
  have "cut_point values 1 4 \<in> snd ` set values" using ne by (intro cut_mem) simp_all
  with assms(2) have q1: "0 \<le> cut_point values 1 4" by blast
  note ord = cut_order [OF ne]
  show ?thesis
    using computeLevels_lookup [OF assms] q1 ord by (auto simp: cut_point_def)
qed

theorem computeLevels_quartile_bands_witness:
  "distinct (map fst [(1::nat, 0::int), (2, 3), (3, 5), (4, 8), (5, 8)])
   \<and> list_all (\<lambda>e. 0 \<le> snd e) [(1::nat, 0::int), (2, 3), (3, 5), (4, 8), (5, 8)]
   \<and> (3, 5) \<in> set [(1::nat, 0::int), (2, 3), (3, 5), (4, 8), (5, 8)]
   \<and> cut_point [(1::nat, 0::int), (2, 3), (3, 5), (4, 8), (5, 8)] 1 4 = 3
   \<and> cut_point [(1::nat, 0::int), (2, 3), (3, 5), (4, 8), (5, 8)] 1 2 = 5
   \<and> cut_point [(1::nat, 0::int), (2, 3), (3, 5), (4, 8), (5, 8)] 3 4 = 8
   \<and> map_of (computeLevels [(1::nat, 0::int), (2, 3), (3, 5), (4, 8), (5, 8)]) 3 = Some 2"
  using computeLevels_quartile_bands
    [of "[(1::nat, 0::int), (2, 3), (3, 5), (4, 8), (5, 8)]" 3 5]
  by (simp add: cut_point_def)

text \<open>
  C2. For a map of non-negative counts a date has level 0 exactly when its count is 0;
  when every count is 0, every date has level 0.
\<close>

theorem computeLevels_zero_iff:
  assumes "distinct (map fst values)" and "\<forall>v \<in> snd ` set values. 0 \<le> v"
    and "(k, v) \<in> set values"
  shows "(map_of (computeLevels values) k = Some 0 \<longleftrightarrow> v = 0)
    \<and> ((\<forall>u \<in> snd ` set values. u = 0) \<longrightarrow> map_of (computeLevels values) k = Some 0)"
proof -
  have "\<forall>u \<in> snd ` set values. u = 0 \<Longrightarrow> v = 0"
    using assms(3) by force
  then show ?thesis
    using computeLevels_lookup [OF assms] by auto
qed

theorem computeLevels_zero_iff_witness:
  "distinct (map fst [(1::nat, 0::int), (2, 7), (3, 0)])
   \<and> list_all (\<lambda>e. 0 \<le> snd e) [(1::nat, 0::int), (2, 7), (3, 0)]
   \<and> map_of (computeLevels [(1::nat, 0::int), (2, 7), (3, 0)]) 1 = Some 0
   \<and> map_of (computeLevels [(1::nat, 0::int), (2, 7), (3, 0)]) 2 \<noteq> Some 0
   \<and> list_all (\<lambda>e. snd e = 0) [(1::nat, 0::int), (2, 0)]
   \<and> map_of (computeLevels [(1::nat, 0::int), (2, 0)]) 2 = Some 0"
  using computeLevels_zero_iff [of "[(1::nat, 0::int), (2, 7), (3, 0)]" 1 0]
    computeLevels_zero_iff [of "[(1::nat, 0::int), (2, 7), (3, 0)]" 2 7]
    computeLevels_zero_iff [of "[(1::nat, 0::int), (2, 0)]" 2 0]
  by simp

text \<open>
  C8. For a map of non-negative counts the level is monotone in the count: of two
  entries, the one with the smaller or equal count has the smaller or equal level.
\<close>

theorem computeLevels_monotone:
  assumes "distinct (map fst values)" and "\<forall>v \<in> snd ` set values. 0 \<le> v"
    and "(k1, v1) \<in> set values" and "(k2, v2) \<in> set values" and "v1 \<le> v2"
  shows "\<exists>l1 l2. map_of (computeLevels values) k1 = Some l1
    \<and> map_of (computeLevels values) k2 = Some l2 \<and> l1 \<le> l2"
proof -
  from assms(3) have ne: "values \<noteq> []" by auto
  note ord = cut_order [OF ne]
  from assms(2,3) have "0 \<le> v1" by force
  then show ?thesis
    using computeLevels_lookup [OF assms(1,2,3)] computeLevels_lookup [OF assms(1,2,4)]
      assms(5) ord
    by auto
qed

theorem computeLevels_monotone_witness:
  "distinct (map fst [(1::nat, 0::int), (2, 3), (3, 5), (4, 8), (5, 8)])
   \<and> list_all (\<lambda>e. 0 \<le> snd e) [(1::nat, 0::int), (2, 3), (3, 5), (4, 8), (5, 8)]
   \<and> (2, 3) \<in> set [(1::nat, 0::int), (2, 3), (3, 5), (4, 8), (5, 8)]
   \<and> (4, 8) \<in> set [(1::nat, 0::int), (2, 3), (3, 5), (4, 8), (5, 8)]
   \<and> (3::int) \<le> 8
   \<and> (\<exists>l1 l2. map_of (computeLevels [(1::nat, 0::int), (2, 3), (3, 5), (4, 8), (5, 8)]) 2 = Some l1
        \<and> map_of (computeLevels [(1::nat, 0::int), (2, 3), (3, 5), (4, 8), (5, 8)]) 4 = Some l2
        \<and> l1 \<le> l2)"
  using computeLevels_monotone
    [of "[(1::nat, 0::int), (2, 3), (3, 5), (4, 8), (5, 8)]" 2 3 4 8]
  by simp

section \<open>Properties of the fetchers\<close>

text \<open>
  C7. Each fetcher throws its status error exactly when the response is not a success,
  and the message of that error contains the status code and the response body; on a
  success response the status check throws nothing.
\<close>

theorem fetchers_status_error:
  fixes resA :: "'a gh_json response" and resB :: "'b gl_json response"
  shows "((\<exists>msg. fetchGitHubCalendar resA = Inl (Error msg)) \<longleftrightarrow> \<not> ok resA)
    \<and> (\<not> ok resA \<longrightarrow> (\<exists>pre mid. fetchGitHubCalendar resA =
          Inl (Error (pre @ show_nat (status resA) @ mid @ body_text resA))))
    \<and> ((\<exists>msg. fetchGitLabCalendar resB = Inl (Error msg)) \<longleftrightarrow> \<not> ok resB)
    \<and> (\<not> ok resB \<longrightarrow> (\<exists>pre mid. fetchGitLabCalendar resB =
          Inl (Error (pre @ show_nat (status resB) @ mid @ body_text resB))))"
proof (intro conjI impI)
  show "(\<exists>msg. fetchGitHubCalendar resA = Inl (Error msg)) \<longleftrightarrow> \<not> ok resA"
    by (simp add: fetchGitHubCalendar_def Let_def split: option.splits)
next
  assume "\<not> ok resA"
  then have "fetchGitHubCalendar resA =
      Inl (Error (''GitHub GraphQL error: '' @ show_nat (status resA) @ '' '' @ body_text resA))"
    by (simp add: fetchGitHubCalendar_def)
  then show "\<exists>pre mid. fetchGitHubCalendar resA =
      Inl (Error (pre @ show_nat (status resA) @ mid @ body_text resA))"
    by blast
next
  show "(\<exists>msg. fetchGitLabCalendar resB = Inl (Error msg)) \<longleftrightarrow> \<not> ok resB"
    by (simp add: fetchGitLabCalendar_def Let_def split: option.splits)
next
  assume "\<not> ok resB"
  then have "fetchGitLabCalendar resB =
      Inl (Error (''GitLab calendar error: '' @ show_nat (status resB) @ '' '' @ body_text resB))"
    by (simp add: fetchGitLabCalendar_def)
  then show "\<exists>pre mid. fetchGitLabCalendar resB =
      Inl (Error (pre @ show_nat (status resB) @ mid @ body_text resB))"
    by blast
qed

theorem fetchers_status_error_witness:
  "fetchGitHubCalendar
      \<lparr>ok = False, status = 403, body_text = ''Forbidden'', body_json = (None :: nat gh_json option)\<rparr>
     = Inl (Error ''GitHub GraphQL error: 403 Forbidden'')
   \<and> fetchGitLabCalendar
      \<lparr>ok = False, status = 500, body_text = ''oops'', body_json = (None :: nat gl_json option)\<rparr>
     = Inl (Error ''GitLab calendar error: 500 oops'')
   \<and> fetchGitHubCalendar
      \<lparr>ok = True, status = 200, body_text = ''{}'', body_json = Some (Some [[(1::nat, 2), (1, 3)], [(2, 0)]])\<rparr>
     = Inr [(1, 5), (2, 0)]
   \<and> fetchGitLabCalendar
      \<lparr>ok = True, status = 200, body_text = ''null'', body_json = Some (None :: nat gl_json)\<rparr>
     = Inr []"
  using fetchers_status_error
    [of "\<lparr>ok = False, status = 403, body_text = ''Forbidden'', body_json = (None :: nat gh_json option)\<rparr>"
        "\<lparr>ok = False, status = 500, body_text = ''oops'', body_json = (None :: nat gl_json option)\<rparr>"]
    fetchers_status_error
    [of "\<lparr>ok = True, status = 200, body_text = ''{}'', body_json = Some (Some [[(1::nat, 2), (1, 3)], [(2, 0)]])\<rparr>"
        "\<lparr>ok = True, status = 200, body_text = ''null'', body_json = Some (None :: nat gl_json)\<rparr>"]
  by (simp add: fetchGitHubCalendar_def fetchGitLabCalendar_def show_nat.simps digit_def
      js_plus_exact)

section \<open>Properties of the calendar merger\<close>

lemma add_count_own_keys: "map fst (add_count (\<lambda>k. None) e base) = map fst base"
  by (auto simp: add_count_def update_keys split: prod.splits option.splits
      dest!: map_of_SomeD intro: rev_image_eqI)

lemma fold_add_count_own_keys: "map fst (fold (add_count (\<lambda>k. None)) xs base) = map fst base"
  by (induction xs arbitrary: base) (simp_all add: add_count_own_keys)

lemma add_count_proto_own:
  assumes "fst e \<notin> fst ` set base \<longrightarrow> proto (fst e) = None"
  shows "add_count proto e base = add_count (\<lambda>k. None) e base"
proof (cases "map_of base (fst e)")
  case None
  then have "fst e \<notin> fst ` set base" by (simp add: map_of_eq_None_iff)
  with assms None show ?thesis by (simp add: add_count_def case_prod_beta)
next
  case (Some v)
  then show ?thesis by (simp add: add_count_def case_prod_beta)
qed

lemma fold_add_count_proto_own:
  assumes "\<forall>e \<in> set xs. fst e \<notin> fst ` set base \<longrightarrow> proto (fst e) = None"
  shows "fold (add_count proto) xs base = fold (add_count (\<lambda>k. None)) xs base"
  using assms
proof (induction xs arbitrary: base)
  case Nil
  show ?case by simp
next
  case (Cons x xs)
  have keys: "fst ` set (add_count (\<lambda>k. None) x base) = fst ` set base"
    using add_count_own_keys [of x base] by (metis list.set_map)
  from Cons.prems have step: "add_count proto x base = add_count (\<lambda>k. None) x base"
    by (intro add_count_proto_own) simp
  from Cons.prems have "\<forall>e \<in> set xs.
      fst e \<notin> fst ` set (add_count (\<lambda>k. None) x base) \<longrightarrow> proto (fst e) = None"
    by (simp add: keys)
  from Cons.IH [OF this] show ?case by (simp add: step)
qed

lemma sum_for_nonneg: "\<forall>e \<in> set xs. 0 \<le> snd e \<Longrightarrow> 0 \<le> sum_for xs k"
  by (induction xs) (auto simp: sum_for_def)

lemma sum_for_Cons:
  "sum_for ((d, c) # xs) k = (if d = k then c + sum_for xs k else sum_for xs k)"
  by (simp add: sum_for_def)

lemma add_count_own_other:
  "d \<noteq> k \<Longrightarrow> map_of (add_count (\<lambda>k. None) (d, c) base) k = map_of base k"
  by (cases "map_of base d") (simp_all add: add_count_def update_conv')

lemma add_count_own_same:
  "map_of base k = Some v \<Longrightarrow>
   map_of (add_count (\<lambda>k. None) (k, c) base) k = Some (js_add v c)"
  by (simp add: add_count_def update_conv')

lemma fold_add_count_own_lookup:
  assumes "map_of base k = Some (Num n)" and "0 \<le> n" and "\<forall>e \<in> set xs. 0 \<le> snd e"
    and "n + sum_for xs k < 9007199254740992"
  shows "map_of (fold (add_count (\<lambda>k. None)) xs base) k = Some (Num (n + sum_for xs k))"
  using assms
proof (induction xs arbitrary: base n)
  case Nil
  then show ?case by (simp add: sum_for_def)
next
  case (Cons x xs)
  obtain d c where x: "x = (d, c)" by (cases x)
  from Cons.prems(3) have c: "0 \<le> c" and rest: "\<forall>e \<in> set xs. 0 \<le> snd e"
    by (simp_all add: x)
  have tail: "0 \<le> sum_for xs k" using rest by (rule sum_for_nonneg)
  show ?case
  proof (cases "d = k")
    case True
    from Cons.prems(4) tail c Cons.prems(2) have "\<bar>n + c\<bar> < 9007199254740992"
      by (simp add: x True sum_for_Cons)
    then have "js_add (Num n) c = Num (n + c)"
      by (simp add: js_plus_exact)
    with Cons.prems(1) have look: "map_of (add_count (\<lambda>k. None) (k, c) base) k = Some (Num (n + c))"
      by (simp add: add_count_own_same)
    from Cons.prems(4) have bound: "n + c + sum_for xs k < 9007199254740992"
      by (simp add: x True sum_for_Cons add.assoc)
    from Cons.prems(2) c have "0 \<le> n + c" by simp
    from Cons.IH [OF look this rest bound] show ?thesis
      by (simp add: x True sum_for_Cons add.assoc)
  next
    case False
    from Cons.prems(1) False have look: "map_of (add_count (\<lambda>k. None) (d, c) base) k = Some (Num n)"
      by (simp add: add_count_own_other)
    from Cons.prems(4) False have "n + sum_for xs k < 9007199254740992"
      by (simp add: x sum_for_Cons)
    from Cons.IH [OF look Cons.prems(2) rest this] False show ?thesis
      by (simp add: x sum_for_Cons)
  qed
qed

lemma sum_for_distinct: "distinct (map fst xs) \<Longrightarrow> sum_for xs k = count_of xs k"
proof (induction xs)
  case Nil
  show ?case by (simp add: sum_for_def count_of_def)
next
  case (Cons x xs)
  obtain d c where x: "x = (d, c)" by (cases x)
  from Cons.prems have d: "distinct (map fst xs)" and nd: "d \<notin> fst ` set xs"
    by (auto simp: x)
  show ?case
  proof (cases "k = d")
    case True
    with nd have "filter (\<lambda>e. fst e = k) xs = []"
      by (auto simp: filter_empty_conv)
    with True show ?thesis by (simp add: sum_for_def count_of_def x)
  next
    case False
    with Cons.IH [OF d] show ?thesis by (simp add: sum_for_def count_of_def x)
  qed
qed

lemma count_of_bounds:
  assumes "\<forall>e \<in> set xs. 0 \<le> snd e \<and> snd e < b" and "0 < b"
  shows "0 \<le> count_of xs k \<and> count_of xs k < b"
proof (cases "map_of xs k")
  case None
  with assms(2) show ?thesis by (simp add: count_of_def)
next
  case (Some c)
  then have "(k, c) \<in> set xs" by (rule map_of_SomeD)
  with assms(1) Some show ?thesis by (force simp: count_of_def)
qed

lemma add_count_own_absent:
  "fst e \<notin> fst ` set base \<Longrightarrow> add_count (\<lambda>k. None) e base = base"
  by (cases e) (auto simp: add_count_def split: option.splits dest!: map_of_SomeD
      intro: rev_image_eqI)

lemma fold_add_count_own_filter:
  "fold (add_count (\<lambda>k. None)) (filter (\<lambda>(k, c). k \<in> A) xs) base =
   fold (add_count (\<lambda>k. None)) xs base" if "fst ` set base = A"
  using that
proof (induction xs arbitrary: base)
  case Nil
  show ?case by simp
next
  case (Cons x xs)
  have keys: "fst ` set (add_count (\<lambda>k. None) x base) = A"
    using add_count_own_keys [of x base] Cons.prems by (metis list.set_map)
  show ?case
  proof (cases "fst x \<in> A")
    case True
    then show ?thesis using Cons.IH [OF keys] by (simp add: case_prod_beta)
  next
    case False
    with Cons.prems have "add_count (\<lambda>k. None) x base = base"
      by (intro add_count_own_absent) simp
    with False show ?thesis using Cons.IH [OF Cons.prems] by (simp add: case_prod_beta)
  qed
qed

lemma map_of_zeroed:
  "\<forall>e \<in> set base. snd e = 0 \<Longrightarrow> k \<in> fst ` set base \<Longrightarrow>
   map_of (map (\<lambda>(k, n). (k, Num n)) base) k = Some (Num 0)"
  by (induction base) (auto split: if_splits)

lemma bitlen_exact: "2 ^ k \<le> n \<Longrightarrow> n < 2 ^ Suc k \<Longrightarrow> bitlen n = Suc k"
proof (induction k arbitrary: n)
  case 0
  then have "n = 1" by simp
  then show ?case by (simp add: bitlen.simps)
next
  case (Suc k)
  from Suc.prems have "2 ^ k \<le> n div 2" "n div 2 < 2 ^ Suc k" by simp_all
  then have "bitlen (n div 2) = Suc k" by (rule Suc.IH)
  moreover from Suc.prems have "n \<noteq> 0" by auto
  ultimately show ?case by (subst bitlen.simps) simp
qed

lemma js_plus_rounds: "js_plus 9007199254740991 2 = 9007199254740992"
proof -
  have "bitlen 9007199254740993 = Suc 53"
    by (rule bitlen_exact) simp_all
  then show ?thesis
    by (simp add: js_plus_def round_double_def Let_def)
qed

text \<open>
  C3, as stated, fails. A fetched key that names an inherited property passes the guard
  \<^verbatim>\<open>base[date] !== undefined\<close> and becomes a key of the result, bound to a string;
  and a sum beyond \<open>2 ^ 53\<close> is rounded.
\<close>

theorem mergeCalendars_inherited_counterexample:
  "mergeCalendars object_prototype [(''2025-01-01'', 0)] [(''constructor'', 5)] [] =
     [(''2025-01-01'', Num 0), (''constructor'', Str ''function Object() { [native code] }5'')]
   \<and> mergeCalendars object_prototype [(''2025-01-01'', 0)]
       [(''2025-01-01'', 9007199254740991)] [(''2025-01-01'', 2)] =
     [(''2025-01-01'', Num 9007199254740992)]"
  by (simp add: mergeCalendars_def add_count_def object_prototype_def js_plus_rounds
      js_plus_exact show_int_def show_nat.simps digit_def)

text \<open>
  C3, amended. For a zeroed base range and two fetched mappings whose counts are
  non-negative integers below \<open>2 ^ 52\<close> and whose dates outside the base name no
  inherited property, \<open>mergeCalendars\<close> keeps the key set of the base, binds every date of
  the base to the sum of its two fetched counts (0 when absent), and is not changed by
  dropping from the fetched mappings every date outside the base.
\<close>

theorem mergeCalendars_sums:
  assumes zero: "\<forall>e \<in> set base. snd e = 0"
    and dgh: "distinct (map fst gh)" and dgl: "distinct (map fst gl)"
    and small: "\<forall>e \<in> set gh \<union> set gl. 0 \<le> snd e \<and> snd e < 4503599627370496"
    and own: "\<forall>e \<in> set gh \<union> set gl. fst e \<notin> fst ` set base \<longrightarrow> proto (fst e) = None"
  shows "map fst (mergeCalendars proto base gh gl) = map fst base
    \<and> (\<forall>k \<in> fst ` set base.
          map_of (mergeCalendars proto base gh gl) k = Some (Num (count_of gh k + count_of gl k)))
    \<and> mergeCalendars proto base gh gl =
        mergeCalendars proto base (filter (\<lambda>(k, c). k \<in> fst ` set base) gh)
          (filter (\<lambda>(k, c). k \<in> fst ` set base) gl)"
proof -
  let ?b = "map (\<lambda>(k, n). (k, Num n)) base"
  let ?own = "add_count (\<lambda>k. None)"
  let ?in = "\<lambda>(k, c). k \<in> fst ` set base"
  have kb: "fst ` set ?b = fst ` set base"
    by force
  have kb': "fst ` (\<lambda>(k, n). (k, Num n)) ` set base = fst ` set base"
    by force
  have kgh: "fst ` set (fold ?own gh ?b) = fst ` set base"
    using fold_add_count_own_keys [of gh ?b] kb by (metis list.set_map)
  have gh_own: "fold (add_count proto) gh ?b = fold ?own gh ?b"
    using own by (intro fold_add_count_proto_own) (simp add: kb')
  have gl_own: "fold (add_count proto) gl (fold ?own gh ?b) = fold ?own gl (fold ?own gh ?b)"
    using own by (intro fold_add_count_proto_own) (simp add: kgh)
  have merged: "mergeCalendars proto base gh gl = fold ?own gl (fold ?own gh ?b)"
    by (simp add: mergeCalendars_def gh_own gl_own)
  have fgh_own: "fold (add_count proto) (filter ?in gh) ?b = fold ?own (filter ?in gh) ?b"
    using own by (intro fold_add_count_proto_own) (simp add: kb')
  have fgl_own: "fold (add_count proto) (filter ?in gl) (fold ?own gh ?b) =
      fold ?own (filter ?in gl) (fold ?own gh ?b)"
    using own by (intro fold_add_count_proto_own) (simp add: kgh)
  have keys: "map fst (mergeCalendars proto base gh gl) = map fst base"
    by (simp add: merged fold_add_count_own_keys comp_def case_prod_beta)
  have sums: "map_of (mergeCalendars proto base gh gl) k = Some (Num (count_of gh k + count_of gl k))"
    if k: "k \<in> fst ` set base" for k
  proof -
    from small have sgh: "\<forall>e \<in> set gh. 0 \<le> snd e \<and> snd e < 4503599627370496"
      and sgl: "\<forall>e \<in> set gl. 0 \<le> snd e \<and> snd e < 4503599627370496"
      by simp_all
    note bgh = count_of_bounds [OF sgh, of k] and bgl = count_of_bounds [OF sgl, of k]
    have "map_of (fold ?own gh ?b) k = Some (Num (0 + sum_for gh k))"
      using bgh sgh by (intro fold_add_count_own_lookup map_of_zeroed zero k)
        (simp_all add: sum_for_distinct dgh)
    then have look: "map_of (fold ?own gh ?b) k = Some (Num (count_of gh k))"
      by (simp add: sum_for_distinct dgh)
    have "map_of (fold ?own gl (fold ?own gh ?b)) k = Some (Num (count_of gh k + sum_for gl k))"
      using bgh bgl sgl by (intro fold_add_count_own_lookup look)
        (simp_all add: sum_for_distinct dgl)
    then show ?thesis
      by (simp add: merged sum_for_distinct dgl)
  qed
  have "mergeCalendars proto base (filter ?in gh) (filter ?in gl) =
      fold ?own (filter ?in gl) (fold ?own (filter ?in gh) ?b)"
    by (simp add: mergeCalendars_def fgh_own fold_add_count_own_filter [OF kb] fgl_own)
  also have "\<dots> = fold ?own gl (fold ?own gh ?b)"
    by (simp add: fold_add_count_own_filter [OF kb] fold_add_count_own_filter [OF kgh])
  finally have "mergeCalendars proto base gh gl =
      mergeCalendars proto base (filter ?in gh) (filter ?in gl)"
    by (simp add: merged)
  with keys sums show ?thesis by blast
qed

theorem mergeCalendars_sums_witness:
  "list_all (\<lambda>e. snd e = 0) [(''2025-01-01'', 0::int), (''2025-01-02'', 0)]
   \<and> distinct (map fst [(''2025-01-01'', 2::int), (''2024-01-01'', 5)])
   \<and> distinct (map fst [(''2025-01-02'', 1::int), (''2025-01-01'', 4), (''2023-01-01'', 7)])
   \<and> object_prototype ''2024-01-01'' = None \<and> object_prototype ''2023-01-01'' = None
   \<and> mergeCalendars object_prototype [(''2025-01-01'', 0), (''2025-01-02'', 0)]
        [(''2025-01-01'', 2), (''2024-01-01'', 5)]
        [(''2025-01-02'', 1), (''2025-01-01'', 4), (''2023-01-01'', 7)]
      = [(''2025-01-01'', Num 6), (''2025-01-02'', Num 1)]
   \<and> map_of (mergeCalendars object_prototype [(''2025-01-01'', 0), (''2025-01-02'', 0)]
        [(''2025-01-01'', 2), (''2024-01-01'', 5)]
        [(''2025-01-02'', 1), (''2025-01-01'', 4), (''2023-01-01'', 7)]) ''2025-01-01''
      = Some (Num (2 + 4))"
  using mergeCalendars_sums [of "[(''2025-01-01'', 0), (''2025-01-02'', 0)]"
      "[(''2025-01-01'', 2), (''2024-01-01'', 5)]"
      "[(''2025-01-02'', 1), (''2025-01-01'', 4), (''2023-01-01'', 7)]" object_prototype]
  by (simp add: mergeCalendars_def add_count_def count_of_def object_prototype_def js_plus_exact)

lemma add_count_own_numbers:
  assumes "\<forall>e \<in> set base. \<exists>n. snd e = Num n"
  shows "\<forall>e \<in> set (add_count (\<lambda>k. None) x base). \<exists>n. snd e = Num n"
proof (cases "map_of base (fst x)")
  case None
  with assms show ?thesis by (simp add: add_count_def case_prod_beta)
next
  case (Some v)
  then have "(fst x, v) \<in> set base" by (rule map_of_SomeD)
  with assms obtain n where v: "v = Num n" by force
  have "set (AList.update (fst x) (Num (js_plus n (snd x))) base)
      \<subseteq> insert (fst x, Num (js_plus n (snd x))) (set base)"
    by (induction base) auto
  with assms Some v show ?thesis
    by (auto simp: add_count_def case_prod_beta)
qed

lemma fold_add_count_own_numbers:
  "\<forall>e \<in> set base. \<exists>n. snd e = Num n \<Longrightarrow>
   \<forall>e \<in> set (fold (add_count (\<lambda>k. None)) xs base). \<exists>n. snd e = Num n"
proof (induction xs arbitrary: base)
  case Nil
  then show ?case by simp
next
  case (Cons x xs)
  from Cons.IH [OF add_count_own_numbers [OF Cons.prems]] show ?case by simp
qed

lemma numbers_lossless:
  "\<forall>e \<in> set obj. \<exists>n. snd e = Num n \<Longrightarrow> map (\<lambda>(k, n). (k, Num n)) (numbers obj) = obj"
  by (induction obj) (auto simp: numbers_def)

lemma merged_dates_are_numbers:
  "map (\<lambda>(k, n). (k, Num n)) (numbers (mergeCalendars no_inherited base gh gl)) =
   mergeCalendars no_inherited base gh gl"
proof -
  have eq: "no_inherited = (\<lambda>k. None)" by (simp add: no_inherited_def fun_eq_iff)
  show ?thesis
    unfolding mergeCalendars_def eq
    by (intro numbers_lossless fold_add_count_own_numbers) auto
qed

section \<open>Properties of the time zones\<close>

lemma fixed_zone_offsets [simp]:
  "utc_offset (fixed_zone c) t = c" "local_offset (fixed_zone c) t = c"
  by (transfer, simp)+


lemma setDate_fixed: "setDate (fixed_zone c) d n = d + n * msPerDay"
  by (simp add: setDate_def)

lemma iso_day_add: "iso_day (d + n * msPerDay) = iso_day d + n"
  by (simp add: iso_day_def msPerDay_def)

section \<open>Properties of the date range builder\<close>






lemma fromDate_fixed: "fromDate (fixed_zone c) today = today + (- 364) * msPerDay"
  by (simp add: fromDate_def setDate_fixed)





section \<open>Properties of the grid renderer\<close>

subsection \<open>The loops, in any time zone\<close>

lemma rect_step_pair:
  "rect_step z body w d (rects, cursor) = (rects @ [body w d cursor], setDate z cursor 1)"
  by (simp add: rect_step_def)

lemma inner_loop:
  "fold (\<lambda>d. rect_step z body w d) [0..<n] (rects, cursor) =
     (rects @ map (\<lambda>d. body w d (((\<lambda>t. setDate z t 1) ^^ d) cursor)) [0..<n],
      ((\<lambda>t. setDate z t 1) ^^ n) cursor)"
proof (induction n)
  case 0
  show ?case by simp
next
  case (Suc n)
  show ?case by (simp add: Suc rect_step_pair)
qed

lemma outer_loop:
  "fold (\<lambda>w. fold (\<lambda>d. rect_step z body w d) [0..<7]) [0..<n] (rects, cursor) =
     (rects @ concat (map (\<lambda>w. map (\<lambda>d. body w d (((\<lambda>t. setDate z t 1) ^^ (7 * w + d)) cursor))
                [0..<7]) [0..<n]),
      ((\<lambda>t. setDate z t 1) ^^ (7 * n)) cursor)"
proof (induction n)
  case 0
  show ?case by simp
next
  case (Suc n)
  let ?f = "\<lambda>t. setDate z t 1"
  have shift: "(?f ^^ d) ((?f ^^ (7 * n)) cursor) = (?f ^^ (7 * n + d)) cursor" for d
    by (simp add: funpow_add add.commute)
  have last: "7 * n + 7 = 7 * Suc n"
    by simp
  have "fold (\<lambda>w. fold (\<lambda>d. rect_step z body w d) [0..<7]) [0..<Suc n] (rects, cursor) =
      fold (\<lambda>d. rect_step z body n d) [0..<7]
        (fold (\<lambda>w. fold (\<lambda>d. rect_step z body w d) [0..<7]) [0..<n] (rects, cursor))"
    by (simp only: upt_Suc_append [OF le0] fold_append comp_apply fold.simps id_apply)
  also have "\<dots> =
      ((rects @ concat (map (\<lambda>w. map (\<lambda>d. body w d ((?f ^^ (7 * w + d)) cursor)) [0..<7]) [0..<n]))
         @ map (\<lambda>d. body n d ((?f ^^ (7 * n + d)) cursor)) [0..<7],
       (?f ^^ (7 * Suc n)) cursor)"
    by (simp only: Suc inner_loop shift last)
  also have "\<dots> =
      (rects @ concat (map (\<lambda>w. map (\<lambda>d. body w d ((?f ^^ (7 * w + d)) cursor)) [0..<7])
         [0..<Suc n]),
       (?f ^^ (7 * Suc n)) cursor)"
    by (simp only: upt_Suc_append [OF le0] map_append concat_append list.map concat.simps
        append_Nil2 append_assoc)
  finally show ?case .
qed

lemma concat_weeks:
  "concat (map (\<lambda>w. map (\<lambda>d. g w d (7 * w + d)) [0..<7]) [0..<n]) =
     map (\<lambda>i. g (i div 7) (i mod 7) i) [0..<7 * n]"
proof (induction n)
  case 0
  show ?case by simp
next
  case (Suc n)
  let ?h = "\<lambda>i. g (i div 7) (i mod 7) i"
  have "7 * Suc n = 7 * n + 7"
    by simp
  then have "[0..<7 * Suc n] = [0..<7 * n + 7]"
    by (rule arg_cong)
  also have "\<dots> = [0..<7 * n] @ [7 * n..<7 * n + 7]"
    by (rule upt_add_eq_append) simp
  finally have split: "[0..<7 * Suc n] = [0..<7 * n] @ [7 * n..<7 * n + 7]" .
  have "[7 * n..<7 + 7 * n] = map (\<lambda>i. i + 7 * n) [0..<7]"
    by (simp only: map_add_upt)
  then have "map ?h [7 * n..<7 * n + 7] = map ?h (map (\<lambda>i. i + 7 * n) [0..<7])"
    by (simp only: add.commute)
  also have "\<dots> = map (\<lambda>d. ?h (7 * n + d)) [0..<7]"
    by (simp only: map_map comp_def add.commute)
  also have "\<dots> = map (\<lambda>d. g n d (7 * n + d)) [0..<7]"
    by (intro map_cong refl) simp
  finally have week: "map ?h [7 * n..<7 * n + 7] = map (\<lambda>d. g n d (7 * n + d)) [0..<7]" .
  have "concat (map (\<lambda>w. map (\<lambda>d. g w d (7 * w + d)) [0..<7]) [0..<Suc n]) =
      concat (map (\<lambda>w. map (\<lambda>d. g w d (7 * w + d)) [0..<7]) [0..<n])
      @ map (\<lambda>d. g n d (7 * n + d)) [0..<7]"
    by (simp only: upt_Suc_append [OF le0] map_append concat_append list.map concat.simps
        append_Nil2)
  also have "\<dots> = map ?h [0..<7 * Suc n]"
    by (simp only: Suc split map_append week)
  finally show ?case .
qed

lemma grid_rects_closed:
  "grid_rects z body today =
     map (\<lambda>i. body (i div 7) (i mod 7) (cursor_at z today i)) [0..<nat (weeks z today) * 7]"
proof -
  let ?f = "\<lambda>t. setDate z t 1"
  have "grid_rects z body today =
      concat (map (\<lambda>w. map (\<lambda>d. body w d ((?f ^^ (7 * w + d)) (grid_start z today))) [0..<7])
        [0..<nat (weeks z today)])"
    by (simp only: grid_rects_def outer_loop fst_conv append_Nil)
  also have "\<dots> = map (\<lambda>i. body (i div 7) (i mod 7) ((?f ^^ i) (grid_start z today)))
      [0..<7 * nat (weeks z today)]"
    by (rule concat_weeks [where g = "\<lambda>w d i. body w d ((?f ^^ i) (grid_start z today))"])
  finally show ?thesis
    by (simp only: cursor_at_def mult.commute)
qed


lemma grid_rects_mem:
  assumes "r \<in> set (grid_rects z body today)"
  shows "\<exists>w d c. r = body w d c"
  using assms unfolding grid_rects_closed by auto

subsection \<open>The grid in a zone with a constant offset\<close>


lemma getUTCDay_fromDate: "getUTCDay (fromDate (fixed_zone c) today) = getUTCDay today"
proof -
  have "(iso_day today + - 364 + 4) mod 7 = (iso_day today + 4 + (- 52) * 7) mod 7"
    by (simp add: algebra_simps)
  also have "\<dots> = (iso_day today + 4) mod 7"
    by (simp only: mod_mult_self1)
  finally show ?thesis
    by (simp only: getUTCDay_def fromDate_fixed iso_day_add)
qed

lemma grid_start_fixed:
  "grid_start (fixed_zone c) today =
     fromDate (fixed_zone c) today + (- getUTCDay (fromDate (fixed_zone c) today)) * msPerDay"
  by (simp only: grid_start_def Let_def setDate_fixed)

lemma grid_end_fixed:
  "grid_end (fixed_zone c) today = today + (6 - getUTCDay today) * msPerDay"
  by (simp only: grid_end_def Let_def setDate_fixed)




lemma grid_span:
  "grid_end (fixed_zone c) today - grid_start (fixed_zone c) today = 370 * msPerDay"
  by (simp only: grid_start_fixed grid_end_fixed getUTCDay_fromDate)
    (simp add: fromDate_fixed algebra_simps)

lemma weeks_54: "weeks (fixed_zone c) today = 54"
  by (simp add: weeks_def grid_span ceil_div_def msPerDay_def)








lemma show_int_small:
  "show_int 650 = ''650''" "show_int 648 = ''648''" "show_int 86 = ''86''"
  "show_int 112 = ''112''" "show_int 10 = ''10''" "show_int 2 = ''2''" "show_int 0 = ''0''"
  by (simp_all add: show_int_def show_nat.simps digit_def)

lemma first_cell_mem:
  "make_rect levels 0 0 (grid_start (fixed_zone c) today)
     \<in> set (cells (fixed_zone c) today levels)"
proof -
  let ?g = "\<lambda>i. make_rect levels (i div 7) (i mod 7) (cursor_at (fixed_zone c) today i)"
  have "(0::nat) \<in> set [0..<nat (weeks (fixed_zone c) today) * 7]"
    by (simp add: weeks_54)
  then have "?g 0 \<in> ?g ` set [0..<nat (weeks (fixed_zone c) today) * 7]"
    by (rule imageI)
  then have "?g 0 \<in> set (cells (fixed_zone c) today levels)"
    by (simp only: cells_def grid_rects_closed set_map)
  then show ?thesis
    by (simp add: cursor_at_def)
qed






lemma set_update_subset: "set (AList.update k v al) \<subseteq> insert (k, v) (set al)"
  by (induction al) auto

lemma fold_update_keys:
  "fst ` set (fold (\<lambda>(k, v). AList.update k (f v)) xs acc) = fst ` set acc \<union> fst ` set xs"
proof (induction xs arbitrary: acc)
  case Nil
  show ?case by simp
next
  case (Cons x xs)
  show ?case by (cases x) (auto simp: Cons dom_update)
qed

lemma fold_update_values:
  "\<forall>e \<in> set acc. P (snd e) \<Longrightarrow> \<forall>v. P (f v) \<Longrightarrow>
   \<forall>e \<in> set (fold (\<lambda>(k, v). AList.update k (f v)) xs acc). P (snd e)"
proof (induction xs arbitrary: acc)
  case Nil
  then show ?case by simp
next
  case (Cons x xs)
  obtain k v where x: "x = (k, v)" by (cases x)
  have "\<forall>e \<in> set (AList.update k (f v) acc). P (snd e)"
    using Cons.prems set_update_subset [of k "f v" acc] by auto
  from Cons.IH [OF this Cons.prems(2)] show ?case by (simp add: x)
qed

lemma computeLevels_range: "\<forall>e \<in> set (computeLevels values). snd e \<in> {0, 1, 2, 3, 4}"
  unfolding computeLevels_def Let_def
proof (rule fold_update_values)
  show "\<forall>e \<in> set []. snd e \<in> {0, 1, 2, 3, 4::int}" by simp
next
  fix q1 q2 q3
  show "\<forall>v. level q1 q2 q3 v \<in> {0, 1, 2, 3, 4}" by (intro allI level_range)
qed

lemma palette_at_level:
  "l \<in> {0, 1, 2, 3, 4} \<Longrightarrow>
   0 \<le> l \<and> l < int (length palette) \<and> palette_at l = Some (palette ! nat l)"
  by (auto simp: palette_at_def palette_def)

lemma lookup_level_range:
  "(case map_of (computeLevels values) key of None \<Rightarrow> 0 | Some l \<Rightarrow> l) \<in> {0, 1, 2, 3, 4}"
proof (cases "map_of (computeLevels values) key")
  case None
  then show ?thesis by simp
next
  case (Some l)
  then have "(key, l) \<in> set (computeLevels values)" by (rule map_of_SomeD)
  with computeLevels_range [of "values"] have "l \<in> {0, 1, 2, 3, 4}" by force
  with Some show ?thesis by simp
qed

text \<open>
  C10. \<open>computeLevels\<close> returns a map with the key set of its input and levels in
  \<open>{0, 1, 2, 3, 4}\<close>, so every rectangle drawn from its result (or from the default 0 of
  a missing key) indexes the five-entry palette in bounds.
\<close>

theorem computeLevels_palette_in_bounds:
  "fst ` set (computeLevels values) = fst ` set values
   \<and> (\<forall>e \<in> set (computeLevels values). snd e \<in> {0, 1, 2, 3, 4})
   \<and> (\<forall>r \<in> set (cells z today (computeLevels values)).
         0 \<le> r_lvl r \<and> r_lvl r < int (length palette)
         \<and> r_fill r = Some (palette ! nat (r_lvl r)))
   \<and> (\<forall>r \<in> set (cells_rich z today (computeLevels values) counts).
         0 \<le> r_lvl r \<and> r_lvl r < int (length palette)
         \<and> r_fill r = Some (palette ! nat (r_lvl r)))"
proof (intro conjI ballI)
  show "fst ` set (computeLevels values) = fst ` set values"
    unfolding computeLevels_def Let_def by (simp add: fold_update_keys)
next
  fix e assume "e \<in> set (computeLevels values)"
  with computeLevels_range [of "values"] show "snd e \<in> {0, 1, 2, 3, 4}" by blast
next
  fix r assume "r \<in> set (cells z today (computeLevels values))"
  then obtain w d t where r: "r = make_rect (computeLevels values) w d t"
    unfolding cells_def by (blast dest: grid_rects_mem)
  have lvl: "r_lvl r \<in> {0, 1, 2, 3, 4}" and fill: "r_fill r = palette_at (r_lvl r)"
    unfolding r using lookup_level_range [of "values" "iso_day t"]
    by (simp_all add: make_rect_def Let_def)
  from palette_at_level [OF lvl] fill
  show "0 \<le> r_lvl r" "r_lvl r < int (length palette)"
    "r_fill r = Some (palette ! nat (r_lvl r))"
    by simp_all
next
  fix r assume "r \<in> set (cells_rich z today (computeLevels values) counts)"
  then obtain w d t where r: "r = make_rect_rich (computeLevels values) counts w d t"
    unfolding cells_rich_def by (blast dest: grid_rects_mem)
  have lvl: "r_lvl r \<in> {0, 1, 2, 3, 4}" and fill: "r_fill r = palette_at (r_lvl r)"
    unfolding r using lookup_level_range [of "values" "iso_day t"]
    by (simp_all add: make_rect_rich_def Let_def)
  from palette_at_level [OF lvl] fill
  show "0 \<le> r_lvl r" "r_lvl r < int (length palette)"
    "r_fill r = Some (palette ! nat (r_lvl r))"
    by simp_all
qed

theorem computeLevels_palette_in_bounds_witness:
  "fst ` set (computeLevels [(20394::int, 0), (20395, 7)]) = {20394, 20395}
   \<and> computeLevels [(20394::int, 0), (20395, 7)] = [(20394, 0), (20395, 4)]
   \<and> make_rect (computeLevels [(20394, 0), (20395, 7)]) 0 0
        (grid_start (fixed_zone 0) 1762174800000)
        \<in> set (cells (fixed_zone 0) 1762174800000 (computeLevels [(20394, 0), (20395, 7)]))
   \<and> r_fill (make_rect (computeLevels [(20394, 0), (20395, 7)]) 0 0
        (grid_start (fixed_zone 0) 1762174800000))
        = Some ''#ebedf0''"
proof -
  note inst = computeLevels_palette_in_bounds
    [of "[(20394, 0), (20395, 7)]" "fixed_zone 0" 1762174800000 "[]"]
  have mem: "make_rect (computeLevels [(20394, 0), (20395, 7)]) 0 0
      (grid_start (fixed_zone 0) 1762174800000)
      \<in> set (cells (fixed_zone 0) 1762174800000 (computeLevels [(20394, 0), (20395, 7)]))"
    by (rule first_cell_mem)
  have val: "computeLevels [(20394, 0), (20395, 7)] = [(20394::int, 0), (20395, 4)]"
    by (simp add: computeLevels_def q_def level_def js_le_def js_gt_def)
  from inst mem have "r_fill (make_rect (computeLevels [(20394, 0), (20395, 7)]) 0 0
        (grid_start (fixed_zone 0) 1762174800000))
      = Some (palette ! nat (r_lvl (make_rect (computeLevels [(20394, 0), (20395, 7)]) 0 0
          (grid_start (fixed_zone 0) 1762174800000))))"
    by blast
  moreover have "r_lvl (make_rect (computeLevels [(20394, 0), (20395, 7)]) 0 0
      (grid_start (fixed_zone 0) 1762174800000)) = 0"
    by (simp add: val make_rect_def Let_def grid_start_def fromDate_def setDate_def getUTCDay_def
        iso_day_def msPerDay_def)
  ultimately show ?thesis
    using inst mem by (simp add: val palette_def)
qed

lemma make_rect_explicit:
  "make_rect levels w d t =
     \<lparr>r_key = iso_day t, r_lvl = count_of levels (iso_day t), r_cnt = 0,
      r_x = gap + int w * (cell + gap), r_y = gap + int d * (cell + gap),
      r_fill = palette_at (count_of levels (iso_day t))\<rparr>"
  by (simp add: make_rect_def count_of_def Let_def)

lemma make_rect_rich_explicit:
  "make_rect_rich levels counts w d t =
     \<lparr>r_key = iso_day t, r_lvl = count_of levels (iso_day t),
      r_cnt = count_of counts (iso_day t),
      r_x = gap + int w * (cell + gap), r_y = headerH + gap + int d * (cell + gap),
      r_fill = palette_at (count_of levels (iso_day t))\<rparr>"
  by (simp add: make_rect_rich_def count_of_def Let_def)

lemma make_rect_map_of:
  "\<forall>k. map_of l1 k = map_of l2 k \<Longrightarrow> make_rect l1 = make_rect l2"
  by (simp add: make_rect_def fun_eq_iff)

lemma make_rect_rich_map_of:
  "\<forall>k. map_of l1 k = map_of l2 k \<Longrightarrow> \<forall>k. map_of c1 k = map_of c2 k \<Longrightarrow>
   make_rect_rich l1 c1 = make_rect_rich l2 c2"
  by (simp add: make_rect_rich_def fun_eq_iff)

lemma cells_explicit:
  "cells z today levels =
     map (\<lambda>i. \<lparr>r_key = iso_day (cursor_at z today i),
               r_lvl = count_of levels (iso_day (cursor_at z today i)), r_cnt = 0,
               r_x = gap + int (i div 7) * (cell + gap),
               r_y = gap + int (i mod 7) * (cell + gap),
               r_fill = palette_at (count_of levels (iso_day (cursor_at z today i)))\<rparr>)
       [0..<nat (weeks z today) * 7]"
  by (simp only: cells_def grid_rects_closed make_rect_explicit)

lemma cells_rich_explicit:
  "cells_rich z today levels counts =
     map (\<lambda>i. \<lparr>r_key = iso_day (cursor_at z today i),
               r_lvl = count_of levels (iso_day (cursor_at z today i)),
               r_cnt = count_of counts (iso_day (cursor_at z today i)),
               r_x = gap + int (i div 7) * (cell + gap),
               r_y = headerH + gap + int (i mod 7) * (cell + gap),
               r_fill = palette_at (count_of levels (iso_day (cursor_at z today i)))\<rparr>)
       [0..<nat (weeks z today) * 7]"
  by (simp only: cells_rich_def grid_rects_closed make_rect_rich_explicit)

lemma rect_text_level_0:
  \<open>rect_text \<lparr>r_key = k, r_lvl = 0, r_cnt = n, r_x = x, r_y = y, r_fill = palette_at 0\<rparr> =
     ''<rect x="'' @ show_int x @ ''" y="'' @ show_int y
     @ ''" width="10" height="10" rx="2" ry="2" fill="#ebedf0">\<newline>        <title>''
     @ iso_text k @ '': 0</title>\<newline>      </rect>''\<close>
  by (simp add: rect_text_def fill_text_def palette_at_def palette_def cell_def show_int_small)

lemma rect_text_rich_level_0:
  \<open>rect_text_rich \<lparr>r_key = k, r_lvl = 0, r_cnt = 0, r_x = x, r_y = y, r_fill = palette_at 0\<rparr> =
     ''<rect x="'' @ show_int x @ ''" y="'' @ show_int y
     @ ''" width="10" height="10" rx="2" ry="2" fill="#ebedf0">\<newline>        <title>''
     @ iso_text k @ '': 0 contributions</title>\<newline>      </rect>''\<close>
  by (simp add: rect_text_rich_def fill_text_def palette_at_def palette_def cell_def
      show_int_small)

text \<open>
  C9. \<open>renderSVG\<close> is a total function: it has no failing branch. Its output is the header,
  one rectangle for each day of the grid, drawn from the level (in the richer variant
  also the count) looked up at that day with 0 for a missing day, and the closing tag; so
  two maps with the same bindings give the same string, whatever the order of their
  entries, and the rectangle of a missing day is the one of level 0 (count 0).
\<close>

theorem renderSVG_by_lookups:
  \<open>renderSVG z today levels =
     ''<?xml version="1.0" encoding="UTF-8"?>\<newline><svg width="'' @ show_int (width z today)
     @ ''" height="86" viewBox="0 0 '' @ show_int (width z today)
     @ '' 86" xmlns="http://www.w3.org/2000/svg" role="img" aria-label="Combined contributions">\<newline>  <title>Combined GitHub + GitLab Contributions (last 365 days)</title>\<newline>  <rect width="100%" height="100%" fill="#fff"/>\<newline>  ''
     @ concat (map (\<lambda>i. rect_text
           \<lparr>r_key = iso_day (cursor_at z today i),
            r_lvl = count_of levels (iso_day (cursor_at z today i)), r_cnt = 0,
            r_x = gap + int (i div 7) * (cell + gap),
            r_y = gap + int (i mod 7) * (cell + gap),
            r_fill = palette_at (count_of levels (iso_day (cursor_at z today i)))\<rparr>)
         [0..<nat (weeks z today) * 7])
     @ ''\<newline></svg>''
   \<and> renderSVG_rich z today levels counts totals =
     ''<?xml version="1.0" encoding="UTF-8"?>\<newline><svg width="'' @ show_int (width z today)
     @ ''" height="112" viewBox="0 0 '' @ show_int (width z today)
     @ '' 112" xmlns="http://www.w3.org/2000/svg" role="img" aria-label="Combined contributions">\<newline>  <title>Combined GitHub + GitLab Contributions (last 365 days)</title>\<newline>  <rect width="100%" height="100%" fill="#fff"/>\<newline>  <text x="2" y="16" font-family="''
     @ font_family @ ''" font-size="12" fill="#24292f">Total: '' @ show_int (t_total totals)
     @ '' (GH '' @ show_int (t_gh totals) @ '' '' @ bullet @ '' GL '' @ show_int (t_gl totals)
     @ '')</text>\<newline>  <text x="'' @ show_int (width z today - 2)
     @ ''" y="16" text-anchor="end" font-family="'' @ font_family
     @ ''" font-size="11" fill="#57606a">'' @ iso_text (iso_day (fromDate z today))
     @ '' '' @ arrow @ '' '' @ iso_text (iso_day today) @ ''</text>\<newline>  ''
     @ concat (map (\<lambda>i. rect_text_rich
           \<lparr>r_key = iso_day (cursor_at z today i),
            r_lvl = count_of levels (iso_day (cursor_at z today i)),
            r_cnt = count_of counts (iso_day (cursor_at z today i)),
            r_x = gap + int (i div 7) * (cell + gap),
            r_y = headerH + gap + int (i mod 7) * (cell + gap),
            r_fill = palette_at (count_of levels (iso_day (cursor_at z today i)))\<rparr>)
         [0..<nat (weeks z today) * 7])
     @ ''\<newline></svg>''
   \<and> ((\<forall>k. map_of l1 k = map_of l2 k) \<longrightarrow> renderSVG z today l1 = renderSVG z today l2)
   \<and> ((\<forall>k. map_of l1 k = map_of l2 k) \<and> (\<forall>k. map_of c1 k = map_of c2 k) \<longrightarrow>
        renderSVG_rich z today l1 c1 totals = renderSVG_rich z today l2 c2 totals)
   \<and> (map_of levels k = None \<longrightarrow>
        count_of levels k = 0
        \<and> rect_text \<lparr>r_key = k, r_lvl = count_of levels k, r_cnt = 0, r_x = x, r_y = y,
             r_fill = palette_at (count_of levels k)\<rparr> =
           ''<rect x="'' @ show_int x @ ''" y="'' @ show_int y
           @ ''" width="10" height="10" rx="2" ry="2" fill="#ebedf0">\<newline>        <title>''
           @ iso_text k @ '': 0</title>\<newline>      </rect>'')
   \<and> (map_of levels k = None \<and> map_of counts k = None \<longrightarrow>
        count_of counts k = 0
        \<and> rect_text_rich \<lparr>r_key = k, r_lvl = count_of levels k, r_cnt = count_of counts k,
             r_x = x, r_y = y, r_fill = palette_at (count_of levels k)\<rparr> =
           ''<rect x="'' @ show_int x @ ''" y="'' @ show_int y
           @ ''" width="10" height="10" rx="2" ry="2" fill="#ebedf0">\<newline>        <title>''
           @ iso_text k @ '': 0 contributions</title>\<newline>      </rect>'')\<close>
proof (intro conjI impI)
  assume "\<forall>k. map_of l1 k = map_of l2 k"
  then have "make_rect l1 = make_rect l2" by (rule make_rect_map_of)
  then have "cells z today l1 = cells z today l2" by (simp only: cells_def)
  then show "renderSVG z today l1 = renderSVG z today l2" by (simp only: renderSVG_def)
next
  assume "(\<forall>k. map_of l1 k = map_of l2 k) \<and> (\<forall>k. map_of c1 k = map_of c2 k)"
  then have "make_rect_rich l1 c1 = make_rect_rich l2 c2" by (intro make_rect_rich_map_of) simp_all
  then have "cells_rich z today l1 c1 = cells_rich z today l2 c2" by (simp only: cells_rich_def)
  then show "renderSVG_rich z today l1 c1 totals = renderSVG_rich z today l2 c2 totals"
    by (simp only: renderSVG_rich_def)
next
  assume "map_of levels k = None"
  then show "count_of levels k = 0" by (simp add: count_of_def)
next
  assume "map_of levels k = None"
  then have "count_of levels k = 0" by (simp add: count_of_def)
  then show \<open>rect_text \<lparr>r_key = k, r_lvl = count_of levels k, r_cnt = 0, r_x = x, r_y = y,
         r_fill = palette_at (count_of levels k)\<rparr> =
       ''<rect x="'' @ show_int x @ ''" y="'' @ show_int y
       @ ''" width="10" height="10" rx="2" ry="2" fill="#ebedf0">\<newline>        <title>''
       @ iso_text k @ '': 0</title>\<newline>      </rect>''\<close>
    by (simp only: rect_text_level_0)
next
  assume "map_of levels k = None \<and> map_of counts k = None"
  then show "count_of counts k = 0" by (simp add: count_of_def)
next
  assume "map_of levels k = None \<and> map_of counts k = None"
  then have "count_of levels k = 0" "count_of counts k = 0" by (simp_all add: count_of_def)
  then show \<open>rect_text_rich \<lparr>r_key = k, r_lvl = count_of levels k, r_cnt = count_of counts k,
         r_x = x, r_y = y, r_fill = palette_at (count_of levels k)\<rparr> =
       ''<rect x="'' @ show_int x @ ''" y="'' @ show_int y
       @ ''" width="10" height="10" rx="2" ry="2" fill="#ebedf0">\<newline>        <title>''
       @ iso_text k @ '': 0 contributions</title>\<newline>      </rect>''\<close>
    by (simp only: rect_text_rich_level_0)
qed (simp_all add: renderSVG_def renderSVG_rich_def Let_def cells_explicit cells_rich_explicit
    show_int_small cell_def gap_def headerH_def comp_def)

theorem renderSVG_by_lookups_witness:
  \<open>map_of [(20395, 3::int)] (20030::int) = None
   \<and> iso_day (cursor_at (fixed_zone 0) 1762174800000 0) = 20030
   \<and> rect_text \<lparr>r_key = 20030, r_lvl = count_of [(20395::int, 3)] 20030, r_cnt = 0, r_x = 2,
        r_y = 2, r_fill = palette_at (count_of [(20395::int, 3)] 20030)\<rparr> =
      ''<rect x="2" y="2" width="10" height="10" rx="2" ry="2" fill="#ebedf0">\<newline>        <title>2024-11-03: 0</title>\<newline>      </rect>''
   \<and> rect_text_rich \<lparr>r_key = 20030, r_lvl = count_of [(20395::int, 3)] 20030,
        r_cnt = count_of [(20395::int, 9)] 20030, r_x = 2, r_y = 28,
        r_fill = palette_at (count_of [(20395::int, 3)] 20030)\<rparr> =
      ''<rect x="2" y="28" width="10" height="10" rx="2" ry="2" fill="#ebedf0">\<newline>        <title>2024-11-03: 0 contributions</title>\<newline>      </rect>''
   \<and> renderSVG (fixed_zone 0) 1762174800000 [(20395, 3), (20394, 1)] =
      renderSVG (fixed_zone 0) 1762174800000 [(20394, 1), (20395, 3)]\<close>
proof -
  have shown: "iso_text 20030 = ''2024-11-03''"
    by code_simp
  have day: "iso_day (cursor_at (fixed_zone 0) 1762174800000 0) = 20030"
    by (simp add: cursor_at_def grid_start_def fromDate_def setDate_def getUTCDay_def iso_day_def
        msPerDay_def)
  have same: "\<forall>k. map_of [(20395, 3::int), (20394, 1)] k = map_of [(20394, 1), (20395::int, 3)] k"
    by simp
  have none: "map_of [(20395, 3::int)] (20030::int) = None"
    by simp
  have both: "map_of [(20395, 3::int)] (20030::int) = None
      \<and> map_of [(20395, 9::int)] (20030::int) = None"
    by simp
  have s28: "show_int 28 = ''28''"
    by (simp add: show_int_def show_nat.simps digit_def)
  note plain = renderSVG_by_lookups [where z = "fixed_zone 0" and today = 1762174800000
      and levels = "[(20395, 3)]" and counts = "[(20395, 9)]"
      and totals = "\<lparr>t_gh = 0, t_gl = 0, t_total = 0\<rparr>"
      and ?l1.0 = "[(20395, 3), (20394, 1)]" and ?l2.0 = "[(20394, 1), (20395, 3)]"
      and ?c1.0 = "[]" and ?c2.0 = "[]" and k = 20030 and x = 2 and y = 2]
  note rich = renderSVG_by_lookups [where z = "fixed_zone 0" and today = 1762174800000
      and levels = "[(20395, 3)]" and counts = "[(20395, 9)]"
      and totals = "\<lparr>t_gh = 0, t_gl = 0, t_total = 0\<rparr>"
      and ?l1.0 = "[]" and ?l2.0 = "[]" and ?c1.0 = "[]" and ?c2.0 = "[]"
      and k = 20030 and x = 2 and y = 28]
  note order = plain [THEN conjunct2, THEN conjunct2, THEN conjunct1, THEN mp, OF same]
  note missing = plain [THEN conjunct2, THEN conjunct2, THEN conjunct2, THEN conjunct2,
      THEN conjunct1, THEN mp, OF none, THEN conjunct2]
  note missing_rich = rich [THEN conjunct2, THEN conjunct2, THEN conjunct2, THEN conjunct2,
      THEN conjunct2, THEN mp, OF both, THEN conjunct2]
  show ?thesis
    using order missing missing_rich day
    by (simp add: shown show_int_small s28)
qed

section \<open>Properties of the pipeline driver\<close>

lemma contains_here: "contains needle (needle @ post)"
proof (cases "needle @ post")
  case Nil
  then show ?thesis by simp
next
  case (Cons a list)
  have "take (length needle) (needle @ post) = needle" by simp
  then have "take (length needle) (a # list) = needle" by (simp only: Cons)
  then show ?thesis unfolding Cons contains.simps by (rule disjI1)
qed

lemma contains_append: "contains needle (pre @ needle @ post)"
proof (induction pre)
  case Nil
  show ?case by (simp add: contains_here)
next
  case (Cons c pre)
  then show ?case by simp
qed

lemma promise_all_Inl:
  "promise_all order a b = Inl e \<Longrightarrow> a = Inl e \<or> b = Inl e"
  by (auto simp: promise_all_def split: sum.splits settle_order.splits)

lemma promise_all_fails:
  "(\<exists>e. a = Inl e) \<or> (\<exists>e. b = Inl e) \<Longrightarrow> \<exists>e. promise_all order a b = Inl e"
  by (auto simp: promise_all_def split: sum.splits settle_order.splits)

lemma promise_all_first:
  "a = Inl e \<Longrightarrow> (\<exists>y. b = Inr y) \<or> order = GitHub_first \<Longrightarrow> promise_all order a b = Inl e"
  by (auto simp: promise_all_def split: sum.splits settle_order.splits)

lemma main_on_error:
  assumes "promise_all order (fetchGitHubCalendar resGH) (fetchGitLabCalendar resGL) = Inl e"
  shows "main z today outPath order resGH resGL wld =
      wld\<lparr>console_error := console_error wld @ [e], exit_code := Some 1\<rparr>"
    and "main_rich z today outPath order resGH resGL wld =
      wld\<lparr>console_error := console_error wld @ [e], exit_code := Some 1\<rparr>"
  using assms by (simp_all add: main_def main_rich_def Let_def)

text \<open>
  C6, as stated, fails: when source A answers 403 and source B fails too and rejects
  first, the driver logs the error of source B, whose message has no \<open>403\<close> in it.
\<close>

theorem main_403_counterexample:
  "main (fixed_zone 0) 0 ''out'' GitLab_first
      \<lparr>ok = False, status = 403, body_text = ''Forbidden'', body_json = None\<rparr>
      \<lparr>ok = False, status = 500, body_text = ''x'', body_json = None\<rparr>
      \<lparr>out_file = None, console_log = [], console_error = [], exit_code = None\<rparr>
     = \<lparr>out_file = None, console_log = [],
        console_error = [Error ''GitLab calendar error: 500 x''], exit_code = Some 1\<rparr>
   \<and> \<not> contains ''403'' ''GitLab calendar error: 500 x''"
  by (simp add: main_def promise_all_def fetchGitHubCalendar_def fetchGitLabCalendar_def
      show_nat.simps digit_def)

text \<open>
  C6, amended. When a stage fails (in the model, a fetch) the driver logs the error of
  a failed fetch, exits with status 1 and leaves the output file as it was. When source A
  answers 403 and its rejection is the one \<open>Promise.all\<close> reports (source B fulfils, or A
  rejects first), the logged message contains \<open>403\<close>.
\<close>

theorem main_fails_without_writing:
  "((\<exists>e. fetchGitHubCalendar resGH = Inl e) \<or> (\<exists>e. fetchGitLabCalendar resGL = Inl e) \<longrightarrow>
      (\<exists>e. (fetchGitHubCalendar resGH = Inl e \<or> fetchGitLabCalendar resGL = Inl e)
        \<and> main z today outPath order resGH resGL wld =
            wld\<lparr>console_error := console_error wld @ [e], exit_code := Some 1\<rparr>
        \<and> main_rich z today outPath order resGH resGL wld =
            wld\<lparr>console_error := console_error wld @ [e], exit_code := Some 1\<rparr>))
   \<and> (\<not> ok resGH \<and> status resGH = 403
        \<and> ((\<exists>gl. fetchGitLabCalendar resGL = Inr gl) \<or> order = GitHub_first) \<longrightarrow>
      (\<exists>msg. contains ''403'' msg
        \<and> main z today outPath order resGH resGL wld =
            wld\<lparr>console_error := console_error wld @ [Error msg], exit_code := Some 1\<rparr>
        \<and> main_rich z today outPath order resGH resGL wld =
            wld\<lparr>console_error := console_error wld @ [Error msg], exit_code := Some 1\<rparr>))"
proof (intro conjI impI)
  assume "(\<exists>e. fetchGitHubCalendar resGH = Inl e) \<or> (\<exists>e. fetchGitLabCalendar resGL = Inl e)"
  then obtain e where
    e: "promise_all order (fetchGitHubCalendar resGH) (fetchGitLabCalendar resGL) = Inl e"
    using promise_all_fails by blast
  from promise_all_Inl [OF e] main_on_error [OF e]
  show "\<exists>e. (fetchGitHubCalendar resGH = Inl e \<or> fetchGitLabCalendar resGL = Inl e)
      \<and> main z today outPath order resGH resGL wld =
          wld\<lparr>console_error := console_error wld @ [e], exit_code := Some 1\<rparr>
      \<and> main_rich z today outPath order resGH resGL wld =
          wld\<lparr>console_error := console_error wld @ [e], exit_code := Some 1\<rparr>"
    by blast
next
  assume a: "\<not> ok resGH \<and> status resGH = 403
      \<and> ((\<exists>gl. fetchGitLabCalendar resGL = Inr gl) \<or> order = GitHub_first)"
  let ?msg = "''GitHub GraphQL error: '' @ ''403'' @ '' '' @ body_text resGH"
  from a have gh: "fetchGitHubCalendar resGH = Inl (Error ?msg)"
    by (simp add: fetchGitHubCalendar_def show_nat.simps digit_def)
  from a have "promise_all order (fetchGitHubCalendar resGH) (fetchGitLabCalendar resGL) =
      Inl (Error ?msg)"
    by (intro promise_all_first gh) blast
  from main_on_error [OF this] contains_append [of "''403''" "''GitHub GraphQL error: ''"]
  show "\<exists>msg. contains ''403'' msg
      \<and> main z today outPath order resGH resGL wld =
          wld\<lparr>console_error := console_error wld @ [Error msg], exit_code := Some 1\<rparr>
      \<and> main_rich z today outPath order resGH resGL wld =
          wld\<lparr>console_error := console_error wld @ [Error msg], exit_code := Some 1\<rparr>"
    by blast
qed

theorem main_fails_without_writing_witness:
  "\<not> ok \<lparr>ok = False, status = 403, body_text = ''Forbidden'',
          body_json = (None :: isodate gh_json option)\<rparr>
   \<and> fetchGitLabCalendar \<lparr>ok = True, status = 200, body_text = ''{}'',
          body_json = Some (Some [(20395, 2)])\<rparr> = Inr [(20395::int, 2)]
   \<and> contains ''403'' ''GitHub GraphQL error: 403 Forbidden''
   \<and> main (fixed_zone 0) 1762174800000 ''out'' GitLab_first
        \<lparr>ok = False, status = 403, body_text = ''Forbidden'', body_json = None\<rparr>
        \<lparr>ok = True, status = 200, body_text = ''{}'', body_json = Some (Some [(20395, 2)])\<rparr>
        \<lparr>out_file = Some ''old'', console_log = [], console_error = [], exit_code = None\<rparr>
      = \<lparr>out_file = Some ''old'', console_log = [],
         console_error = [Error ''GitHub GraphQL error: 403 Forbidden''], exit_code = Some 1\<rparr>"
  using main_fails_without_writing [where
      resGH = "\<lparr>ok = False, status = 403, body_text = ''Forbidden'', body_json = None\<rparr>"
      and resGL = "\<lparr>ok = True, status = 200, body_text = ''{}'',
        body_json = Some (Some [(20395, 2)])\<rparr>"
      and order = GitLab_first and z = "fixed_zone 0" and today = 1762174800000 and outPath = "''out''"
      and wld = "\<lparr>out_file = Some ''old'', console_log = [], console_error = [],
        exit_code = None\<rparr>"]
  by (simp add: fetchGitHubCalendar_def fetchGitLabCalendar_def show_nat.simps digit_def)

end
